theory Spec2Isabelle
  imports Main "HOL-Library.Word"
begin

unbundle bit_operations_syntax

section \<open>Machine integers\<close>

type_synonym u16 = "16 word"
type_synonym u32 = "32 word"
type_synonym u64 = "64 word"

text \<open>\<^verbatim>\<open>UINT32_MAX\<close>, also written \<^verbatim>\<open>~0u\<close> and
  \<^verbatim>\<open>std::numeric_limits<uint32_t>::max()\<close> in the sources.\<close>

definition U32_MAX :: u32 where
  "U32_MAX = 0xFFFFFFFF"

section \<open>ECS/Components.h: ComponentRegistry\<close>

text \<open>
  \<^verbatim>\<open>m_nameToId\<close> is an unordered map from names to ids, \<^verbatim>\<open>m_idToName\<close> a
  vector of names. Every mutating member function returns the updated registry next to
  its result.
\<close>

record ComponentRegistry =
  m_nameToId :: "string \<rightharpoonup> u32"
  m_idToName :: "string list"

definition InvalidID :: u32 where
  "InvalidID = U32_MAX"

definition emptyRegistry :: ComponentRegistry where
  "emptyRegistry = \<lparr>m_nameToId = Map.empty, m_idToName = []\<rparr>"

definition registerComponent :: "ComponentRegistry \<Rightarrow> string \<Rightarrow> u32 \<times> ComponentRegistry" where
  "registerComponent r name =
     (case m_nameToId r name of
        Some existing \<Rightarrow> (existing, r)
      | None \<Rightarrow>
          (let newId = (of_nat (length (m_idToName r)) :: u32)
           in (newId, r\<lparr>m_nameToId := (m_nameToId r)(name \<mapsto> newId),
                      m_idToName := m_idToName r @ [name]\<rparr>)))"

definition getId :: "ComponentRegistry \<Rightarrow> string \<Rightarrow> u32" where
  "getId r name = (case m_nameToId r name of Some existing \<Rightarrow> existing | None \<Rightarrow> InvalidID)"

definition ensureId :: "ComponentRegistry \<Rightarrow> string \<Rightarrow> u32 \<times> ComponentRegistry" where
  "ensureId r name =
     (case m_nameToId r name of
        Some existing \<Rightarrow> (existing, r)
      | None \<Rightarrow> registerComponent r name)"

definition getName :: "ComponentRegistry \<Rightarrow> u32 \<Rightarrow> string" where
  "getName r cid = (if unat cid < length (m_idToName r) then m_idToName r ! unat cid else [])"

definition count_components :: "ComponentRegistry \<Rightarrow> u32" where
  "count_components r = of_nat (length (m_idToName r))"

section \<open>ECS/Components.h: ComponentMask\<close>

text \<open>The mask is its vector \<^verbatim>\<open>m_words\<close> of 64-bit words, lowest word first.\<close>

type_synonym ComponentMask = "u64 list"

definition bitPos :: "u32 \<Rightarrow> nat \<times> nat" where
  "bitPos compId = (unat compId div 64, unat compId mod 64)"

definition ensureBit :: "ComponentMask \<Rightarrow> u32 \<Rightarrow> ComponentMask" where
  "ensureBit ws compId =
     (let need = unat compId div 64 + 1
      in if length ws < need then ws @ replicate (need - length ws) 0 else ws)"

definition mask_set :: "ComponentMask \<Rightarrow> u32 \<Rightarrow> ComponentMask" where
  "mask_set ws compId =
     (let ws' = ensureBit ws compId; (wordIdx, b) = bitPos compId
      in ws'[wordIdx := (ws' ! wordIdx) OR push_bit b 1])"

definition mask_has :: "ComponentMask \<Rightarrow> u32 \<Rightarrow> bool" where
  "mask_has ws compId =
     (let (wordIdx, b) = bitPos compId
      in if wordIdx \<ge> length ws then False
         else (ws ! wordIdx) AND push_bit b 1 \<noteq> 0)"

definition mask_clear :: "ComponentMask \<Rightarrow> u32 \<Rightarrow> ComponentMask" where
  "mask_clear ws compId =
     (if \<not> mask_has ws compId then ws
      else (let (wordIdx, b) = bitPos compId
            in ws[wordIdx := (ws ! wordIdx) AND NOT (push_bit b 1)]))"

text \<open>The operand read inside the comparison loops:
  \<^verbatim>\<open>i < m_words.size() ? m_words[i] : 0\<close>.\<close>

definition word_or_zero :: "ComponentMask \<Rightarrow> nat \<Rightarrow> u64" where
  "word_or_zero ws i = (if i < length ws then ws ! i else 0)"

text \<open>Both loops run \<^verbatim>\<open>i\<close> from 0 to the longer length and return false at the
  first word that fails the test.\<close>

definition containsAll :: "ComponentMask \<Rightarrow> ComponentMask \<Rightarrow> bool" where
  "containsAll self rhs =
     list_all (\<lambda>i. (word_or_zero self i AND word_or_zero rhs i) = word_or_zero rhs i)
       [0 ..< max (length self) (length rhs)]"

definition containsNone :: "ComponentMask \<Rightarrow> ComponentMask \<Rightarrow> bool" where
  "containsNone self rhs =
     list_all (\<lambda>i. (word_or_zero self i AND word_or_zero rhs i) = 0)
       [0 ..< max (length self) (length rhs)]"

definition matches :: "ComponentMask \<Rightarrow> ComponentMask \<Rightarrow> ComponentMask \<Rightarrow> bool" where
  "matches self required excluded = (containsAll self required \<and> containsNone self excluded)"

text \<open>\<^verbatim>\<open>std::hex << std::setfill('0') << std::setw(16)\<close> prints a 64-bit word as
  exactly sixteen lower-case hexadecimal digits, the most significant first.\<close>

definition hexDigit :: "nat \<Rightarrow> char" where
  "hexDigit d = ''0123456789abcdef'' ! d"

definition hex16 :: "u64 \<Rightarrow> string" where
  "hex16 w = map (\<lambda>k. hexDigit (unat (drop_bit (4 * k) w AND 15))) (rev [0 ..< 16])"

definition toKey :: "ComponentMask \<Rightarrow> string" where
  "toKey ws = (if ws = [] then ''0'' else concat (map hex16 (rev ws)))"

definition fromIds :: "u32 list \<Rightarrow> ComponentMask" where
  "fromIds ids = fold (\<lambda>cid m. mask_set m cid) ids []"

text \<open>The semantic bit-set of a mask, in the words of the specification: component
  \<open>i\<close> is present when bit \<open>i mod 64\<close> of backing word \<open>i div 64\<close> exists and is set.\<close>

definition bit_is_set :: "ComponentMask \<Rightarrow> nat \<Rightarrow> bool" where
  "bit_is_set ws i = (i div 64 < length ws \<and> bit (ws ! (i div 64)) (i mod 64))"

section \<open>assets: the .smodel container\<close>

subsection \<open>Record layouts\<close>

text \<open>
  Modelled from the spec: \<^verbatim>\<open>assets/model/SModelHeader.h\<close> is included by
  \<^verbatim>\<open>ModelFormat.h\<close> but is not among the sources. The fields are the ones the
  specification lists (magic, versions, the seven counts, the per-table byte offsets,
  string table and blob offset and size, declared file size) under the names the loader
  and the cooker use. Counts are 32-bit, as the loader's \<^verbatim>\<open>uint32_t\<close> loop
  counters and its cast \<^verbatim>\<open>uint64_t(nodePrimitiveIndexCount)\<close> show. Offsets and
  sizes hold the value the loader sees after conversion to \<^verbatim>\<open>uint64_t\<close>: each is
  passed to a \<^verbatim>\<open>uint64_t\<close> parameter or compared with a \<^verbatim>\<open>uint64_t\<close>.
\<close>

record SModelHeader =
  magic :: u32
  versionMajor :: u16
  versionMinor :: u16
  meshCount :: u32
  primitiveCount :: u32
  materialCount :: u32
  textureCount :: u32
  nodeCount :: u32
  nodePrimitiveIndexCount :: u32
  nodeChildIndicesCount :: u32
  meshesOffset :: u64
  primitivesOffset :: u64
  materialsOffset :: u64
  texturesOffset :: u64
  nodesOffset :: u64
  nodePrimitiveIndicesOffset :: u64
  nodeChildIndicesOffset :: u64
  stringTableOffset :: u64
  stringTableSize :: u64
  blobOffset :: u64
  blobSize :: u64
  fileSizeBytes :: u64

text \<open>
  Modelled from the spec: \<^verbatim>\<open>SModelMeshRecord.h\<close>, \<^verbatim>\<open>SModelTextureRecord.h\<close>,
  \<^verbatim>\<open>SModelPrimitiveRecord.h\<close> and \<^verbatim>\<open>SModelMaterialRecord.h\<close> are not among the
  sources either. Each record below has the fields the loader reads. A blob offset is
  64-bit: the cooker stores the \<^verbatim>\<open>uint64_t\<close> result of \<^verbatim>\<open>Blob::append\<close> in it
  without a cast. A blob size holds its value converted to 64 bits, the type in which the
  loader adds it to the offset. Vertex count and stride are 32-bit (the loader widens
  both before multiplying); texture indices are signed 32-bit with -1 for none.
\<close>

record SModelMeshRecord =
  vertexCount :: u32
  vertexStride :: u32
  vertexDataOffset :: u64
  vertexDataSize :: u64
  indexDataOffset :: u64
  indexDataSize :: u64

record SModelTextureRecord =
  imageDataOffset :: u64
  imageDataSize :: u64

record SModelPrimitiveRecord =
  meshIndex :: u32
  materialIndex :: u32

record SModelMaterialRecord =
  baseColorTexture :: u32
  normalTexture :: u32
  metallicRoughnessTexture :: u32
  occlusionTexture :: u32
  emissiveTexture :: u32

text \<open>\<^verbatim>\<open>SModelNodeRecord.h\<close>: the packed 88-byte node record. The sixteen floats of
  the local matrix are kept as their bit patterns; the loader never reads them.\<close>

record SModelNodeRecord =
  nr_nameStrOffset :: u32
  nr_parentIndex :: u32
  nr_firstChildIndex :: u32
  nr_childCount :: u32
  nr_firstPrimitiveIndex :: u32
  nr_primitiveCount :: u32
  nr_localMatrix :: "u32 list"

text \<open>
  \<^verbatim>\<open>sizeof\<close> of the structs whose declarations are missing is a parameter of the
  loader model. For the node record the source asserts 88 bytes, and an index entry is a
  \<^verbatim>\<open>uint32_t\<close>.
\<close>

record abi =
  sizeofHeader :: u64
  sizeofMeshRecord :: u64
  sizeofPrimitiveRecord :: u64
  sizeofMaterialRecord :: u64
  sizeofTextureRecord :: u64

definition sizeofNodeRecord :: u64 where
  "sizeofNodeRecord = 88"

definition sizeofU32 :: u64 where
  "sizeofU32 = 4"

subsection \<open>ModelFormat.h\<close>

definition SMODEL_MAGIC :: u32 where
  "SMODEL_MAGIC = 0x444F4D53"

definition SMODEL_VERSION_MAJOR :: u16 where
  "SMODEL_VERSION_MAJOR = 2"

definition SMODEL_VERSION_MINOR :: u16 where
  "SMODEL_VERSION_MINOR = 1"

definition isHeaderCompatible :: "SModelHeader \<Rightarrow> bool" where
  "isHeaderCompatible h =
     (if magic h \<noteq> SMODEL_MAGIC then False
      else if versionMajor h \<noteq> SMODEL_VERSION_MAJOR then False
      else if versionMinor h < SMODEL_VERSION_MINOR then False
      else True)"

subsection \<open>The file and the view\<close>

text \<open>
  The loader reads the buffer through \<^verbatim>\<open>reinterpret_cast\<close> pointers. A buffer is
  modelled by what those reads yield: the header at byte 0 and, for each record type, the
  record found at an absolute byte address.
\<close>

record file_image =
  headerAt0 :: SModelHeader
  meshAt :: "nat \<Rightarrow> SModelMeshRecord"
  primitiveAt :: "nat \<Rightarrow> SModelPrimitiveRecord"
  materialAt :: "nat \<Rightarrow> SModelMaterialRecord"
  textureAt :: "nat \<Rightarrow> SModelTextureRecord"
  nodeAt :: "nat \<Rightarrow> SModelNodeRecord"
  u32At :: "nat \<Rightarrow> u32"

text \<open>
  What \<^verbatim>\<open>std::ifstream\<close> does with the path: the open fails, or it succeeds with
  the signed 64-bit \<^verbatim>\<open>tellg()\<close> at the end of the file, the success of
  \<^verbatim>\<open>file.read\<close> and the buffer contents after that call.
\<close>

datatype disk_file =
    OpenFails
  | Opens (tellg: u64) (readSucceeds: bool) (contents: file_image)

text \<open>
  \<^verbatim>\<open>SModelFileView\<close>. \<^verbatim>\<open>fileBytes\<close> is \<open>None\<close> for the empty vector and
  otherwise its size with its contents. A pointer is \<open>None\<close> for \<^verbatim>\<open>nullptr\<close>; the
  header pointer carries the header it points to, a table pointer the byte offset it was
  formed from (\<^verbatim>\<open>base + offset\<close>). The loader assigns \<^verbatim>\<open>nodes\<close> and
  \<^verbatim>\<open>nodePrimitiveIndices\<close>, so the view has them.
\<close>

record SModelFileView =
  fileBytes :: "(u64 \<times> file_image) option"
  header :: "SModelHeader option"
  meshes :: "u64 option"
  primitives :: "u64 option"
  materials :: "u64 option"
  textures :: "u64 option"
  nodes :: "u64 option"
  nodePrimitiveIndices :: "u64 option"
  stringTable :: "u64 option"
  blob :: "u64 option"

definition emptyView :: SModelFileView where
  "emptyView = \<lparr>fileBytes = None, header = None, meshes = None, primitives = None,
     materials = None, textures = None, nodes = None, nodePrimitiveIndices = None,
     stringTable = None, blob = None\<rparr>"

definition view_meshCount :: "SModelFileView \<Rightarrow> u32" where
  "view_meshCount v = (case header v of Some h \<Rightarrow> meshCount h | None \<Rightarrow> 0)"

definition view_primitiveCount :: "SModelFileView \<Rightarrow> u32" where
  "view_primitiveCount v = (case header v of Some h \<Rightarrow> primitiveCount h | None \<Rightarrow> 0)"

definition view_materialCount :: "SModelFileView \<Rightarrow> u32" where
  "view_materialCount v = (case header v of Some h \<Rightarrow> materialCount h | None \<Rightarrow> 0)"

definition view_textureCount :: "SModelFileView \<Rightarrow> u32" where
  "view_textureCount v = (case header v of Some h \<Rightarrow> textureCount h | None \<Rightarrow> 0)"

subsection \<open>SModelLoader.cpp: helpers\<close>

definition isRangeInsideFile :: "u64 \<Rightarrow> u64 \<Rightarrow> u64 \<Rightarrow> bool" where
  "isRangeInsideFile begin sz fileSize =
     (if begin > fileSize then False
      else if sz > fileSize then False
      else if begin + sz > fileSize then False
      else True)"

text \<open>Decimal rendering of an unsigned number, as \<^verbatim>\<open>operator<<\<close> and
  \<^verbatim>\<open>std::to_string\<close> print it.\<close>

definition digitChar :: "nat \<Rightarrow> char" where
  "digitChar d = ''0123456789'' ! d"

fun dec :: "nat \<Rightarrow> string" where
  "dec n = (if n < 10 then [digitChar n] else dec (n div 10) @ [digitChar (n mod 10)])"

text \<open>
  The result of one validation step: it passes, it rejects the file with the text put into
  \<^verbatim>\<open>outError\<close>, or it reads outside the buffer, where the C++ has no defined
  behaviour.
\<close>

datatype check = Pass | Reject string | OutOfBounds

text \<open>Steps run in order and the first one that does not pass ends the function.\<close>

fun firstFailure :: "check list \<Rightarrow> check" where
  "firstFailure [] = Pass"
| "firstFailure (Pass # cs) = firstFailure cs"
| "firstFailure (c # cs) = c"

text \<open>\<^verbatim>\<open>tableRangeValid<T>\<close>, with \<^verbatim>\<open>sizeof(T)\<close> as first argument. The product
  is a \<^verbatim>\<open>uint64_t\<close> product.\<close>

definition tableRangeValid :: "u64 \<Rightarrow> u64 \<Rightarrow> u64 \<Rightarrow> u64 \<Rightarrow> check" where
  "tableRangeValid sizeofT tableOffset cnt fileSize =
     (let bytes = cnt * sizeofT
      in if \<not> isRangeInsideFile tableOffset bytes fileSize
         then Reject (''Table out of file bounds. offset='' @ dec (unat tableOffset)
                      @ '' bytes='' @ dec (unat bytes) @ '' fileSize='' @ dec (unat fileSize))
         else Pass)"

subsection \<open>SModelLoader.cpp: the validation steps of LoadSModelFile\<close>

text \<open>"Validate section bounds": string table, blob, the four record tables, then
  the node table and the node-primitive-index table when their counts are not zero. The
  node-child-index table is not looked at.\<close>

definition validateSectionBounds :: "abi \<Rightarrow> SModelHeader \<Rightarrow> u64 \<Rightarrow> check" where
  "validateSectionBounds a h uFileSize = firstFailure
     [if \<not> isRangeInsideFile (stringTableOffset h) (stringTableSize h) uFileSize
        then Reject ''String table out of bounds.'' else Pass,
      if \<not> isRangeInsideFile (blobOffset h) (blobSize h) uFileSize
        then Reject ''Blob section out of bounds.'' else Pass,
      tableRangeValid (sizeofMeshRecord a) (meshesOffset h) (ucast (meshCount h)) uFileSize,
      tableRangeValid (sizeofPrimitiveRecord a) (primitivesOffset h) (ucast (primitiveCount h)) uFileSize,
      tableRangeValid (sizeofMaterialRecord a) (materialsOffset h) (ucast (materialCount h)) uFileSize,
      tableRangeValid (sizeofTextureRecord a) (texturesOffset h) (ucast (textureCount h)) uFileSize,
      if nodeCount h > 0
        then tableRangeValid sizeofNodeRecord (nodesOffset h) (ucast (nodeCount h)) uFileSize
        else Pass,
      if nodePrimitiveIndexCount h > 0
        then (let bytes = ucast (nodePrimitiveIndexCount h) * sizeofU32
              in if \<not> isRangeInsideFile (nodePrimitiveIndicesOffset h) bytes uFileSize
                 then Reject ''NodePrimitiveIndices table out of file bounds.'' else Pass)
        else Pass]"

text \<open>"Build pointers/views".\<close>

definition buildViews :: "SModelHeader \<Rightarrow> SModelFileView \<Rightarrow> SModelFileView" where
  "buildViews h v = v
     \<lparr>meshes := Some (meshesOffset h),
      primitives := Some (primitivesOffset h),
      materials := Some (materialsOffset h),
      textures := Some (texturesOffset h),
      nodes := (if nodeCount h > 0 then Some (nodesOffset h) else nodes v),
      nodePrimitiveIndices :=
        (if nodePrimitiveIndexCount h > 0 then Some (nodePrimitiveIndicesOffset h)
         else nodePrimitiveIndices v),
      stringTable := Some (stringTableOffset h),
      blob := Some (blobOffset h)\<rparr>"

text \<open>Body of the loop over meshes, for mesh record \<open>m\<close> at index \<open>i\<close>. The two
  sums are 64-bit sums.\<close>

definition checkMesh :: "u64 \<Rightarrow> SModelMeshRecord \<Rightarrow> nat \<Rightarrow> check" where
  "checkMesh blobSz m i =
     (if vertexDataOffset m + vertexDataSize m > blobSz
        then Reject (''Mesh vertex data slice out of blob bounds (meshIndex='' @ dec i @ '')'')
      else if indexDataOffset m + indexDataSize m > blobSz
        then Reject (''Mesh index data slice out of blob bounds (meshIndex='' @ dec i @ '')'')
      else if vertexCount m = 0 \<or> vertexStride m = 0
        then Reject (''Mesh has invalid vertexCount/vertexStride (meshIndex='' @ dec i @ '')'')
      else if vertexDataSize m \<noteq> (ucast (vertexCount m) :: u64) * ucast (vertexStride m)
        then Reject (''Mesh vertexDataSize mismatch (meshIndex='' @ dec i @ '')'')
      else Pass)"

definition checkTexture :: "u64 \<Rightarrow> SModelTextureRecord \<Rightarrow> nat \<Rightarrow> check" where
  "checkTexture blobSz t i =
     (if imageDataOffset t + imageDataSize t > blobSz
        then Reject (''Texture image data slice out of blob bounds (textureIndex='' @ dec i @ '')'')
      else Pass)"

definition checkPrimitive :: "SModelHeader \<Rightarrow> SModelPrimitiveRecord \<Rightarrow> nat \<Rightarrow> check" where
  "checkPrimitive h p i =
     (if meshIndex p \<ge> meshCount h
        then Reject (''Primitive references invalid meshIndex (primitiveIndex='' @ dec i @ '')'')
      else if materialIndex p \<ge> materialCount h
        then Reject (''Primitive references invalid materialIndex (primitiveIndex='' @ dec i @ '')'')
      else Pass)"

text \<open>The lambda \<^verbatim>\<open>checkTex\<close>: a negative \<^verbatim>\<open>int32_t\<close> means no texture.\<close>

definition checkTex :: "SModelHeader \<Rightarrow> nat \<Rightarrow> u32 \<Rightarrow> string \<Rightarrow> check" where
  "checkTex h i texIndex fieldName =
     (if sint texIndex < 0 then Pass
      else if texIndex \<ge> textureCount h
        then Reject (''Material references invalid texture index (materialIndex='' @ dec i
                      @ '', field='' @ fieldName @ '')'')
      else Pass)"

definition checkMaterial :: "SModelHeader \<Rightarrow> SModelMaterialRecord \<Rightarrow> nat \<Rightarrow> check" where
  "checkMaterial h mat i = firstFailure
     [checkTex h i (baseColorTexture mat) ''baseColorTexture'',
      checkTex h i (normalTexture mat) ''normalTexture'',
      checkTex h i (metallicRoughnessTexture mat) ''metallicRoughnessTexture'',
      checkTex h i (occlusionTexture mat) ''occlusionTexture'',
      checkTex h i (emissiveTexture mat) ''emissiveTexture'']"

text \<open>
  One read \<^verbatim>\<open>outView.nodePrimitiveIndices[nr.firstPrimitiveIndex + k]\<close>. The index
  is a 32-bit sum. The pointer is null when the header's index count is zero, and the
  address may lie past the end of the buffer: the range test before the loop is on a
  32-bit sum as well.
\<close>

definition checkNodePrimitive ::
    "SModelFileView \<Rightarrow> file_image \<Rightarrow> u64 \<Rightarrow> u32 \<Rightarrow> SModelNodeRecord \<Rightarrow> nat \<Rightarrow> check" where
  "checkNodePrimitive v img uFileSize primCount nr k =
     (case nodePrimitiveIndices v of
        None \<Rightarrow> OutOfBounds
      | Some off \<Rightarrow>
          (let addr = unat off + 4 * unat (nr_firstPrimitiveIndex nr + of_nat k)
           in if addr + 4 \<le> unat uFileSize
              then (if u32At img addr \<ge> primCount
                    then Reject ''Node references invalid primitive index'' else Pass)
              else OutOfBounds))"

text \<open>
  Body of the loop over nodes. The source writes \<^verbatim>\<open>nr.firstChild\<close>; the record
  declares no such member, its only child-range start is \<^verbatim>\<open>firstChildIndex\<close>, which
  is what is read here. The sums are 32-bit sums.
\<close>

definition checkNode ::
    "SModelFileView \<Rightarrow> file_image \<Rightarrow> u64 \<Rightarrow> SModelHeader \<Rightarrow> SModelNodeRecord \<Rightarrow> check" where
  "checkNode v img uFileSize h nr = firstFailure
     [if nr_parentIndex nr \<noteq> U32_MAX \<and> nr_parentIndex nr \<ge> nodeCount h
        then Reject ''Node parentIndex out of bounds'' else Pass,
      if nr_childCount nr > 0
        then (if nr_firstChildIndex nr = U32_MAX
                then Reject ''Node has children but firstChild == UINT32_MAX''
              else if nr_firstChildIndex nr + nr_childCount nr > nodeCount h
                then Reject ''Node children range out of bounds''
              else Pass)
        else Pass,
      if nr_primitiveCount nr > 0
        then (if nr_firstPrimitiveIndex nr + nr_primitiveCount nr > nodePrimitiveIndexCount h
                then Reject ''Node primitive index range out of bounds''
              else firstFailure
                     (map (checkNodePrimitive v img uFileSize (primitiveCount h) nr)
                        [0 ..< unat (nr_primitiveCount nr)]))
        else Pass]"

text \<open>
  "Validate record internal offsets" up to the node graph: the five loops, one after
  the other. Record \<open>i\<close> of a table is read at the table's offset plus \<open>i\<close> times the
  record size; these reads stay inside the range checked before.
\<close>

definition crossValidate ::
    "abi \<Rightarrow> SModelFileView \<Rightarrow> file_image \<Rightarrow> u64 \<Rightarrow> SModelHeader \<Rightarrow> check" where
  "crossValidate a v img uFileSize h = firstFailure
     (map (\<lambda>i. checkMesh (blobSize h)
                 (meshAt img (unat (meshesOffset h) + i * unat (sizeofMeshRecord a))) i)
          [0 ..< unat (meshCount h)]
      @ map (\<lambda>i. checkTexture (blobSize h)
                 (textureAt img (unat (texturesOffset h) + i * unat (sizeofTextureRecord a))) i)
          [0 ..< unat (textureCount h)]
      @ map (\<lambda>i. checkPrimitive h
                 (primitiveAt img (unat (primitivesOffset h) + i * unat (sizeofPrimitiveRecord a))) i)
          [0 ..< unat (primitiveCount h)]
      @ map (\<lambda>i. checkMaterial h
                 (materialAt img (unat (materialsOffset h) + i * unat (sizeofMaterialRecord a))) i)
          [0 ..< unat (materialCount h)]
      @ (if nodeCount h > 0
         then map (\<lambda>ni. checkNode v img uFileSize h
                      (nodeAt img (unat (nodesOffset h) + ni * unat sizeofNodeRecord)))
                [0 ..< unat (nodeCount h)]
         else []))"

subsection \<open>SModelLoader.cpp: LoadSModelFile\<close>

text \<open>
  The call either returns its boolean with the contents of \<^verbatim>\<open>outView\<close> and
  \<^verbatim>\<open>outError\<close> at the return, or has read outside the buffer.
\<close>

datatype load_outcome = Undefined | Returned bool SModelFileView string

text \<open>The last two arguments are what \<^verbatim>\<open>outView\<close> and \<^verbatim>\<open>outError\<close> hold when
  the function is called.\<close>

definition LoadSModelFile ::
    "abi \<Rightarrow> string \<Rightarrow> disk_file \<Rightarrow> SModelFileView \<Rightarrow> string \<Rightarrow> load_outcome" where
  "LoadSModelFile a path file outView0 outError0 =
     (let outError = []; outView = emptyView
      in case file of
           OpenFails \<Rightarrow> Returned False outView (''Failed to open file: '' @ path)
         | Opens fileSize readOk img \<Rightarrow>
             if sint fileSize \<le> 0
               then Returned False outView (''File is empty: '' @ path)
             else
               let outView = outView\<lparr>fileBytes := Some (fileSize, img)\<rparr>
               in if \<not> readOk
                    then Returned False outView (''Failed to read file bytes: '' @ path)
                  else
                    let uFileSize = fileSize
                    in if uFileSize < sizeofHeader a
                         then Returned False outView ''File too small to contain SModelHeader.''
                       else
                         let h = headerAt0 img;
                             outView = outView\<lparr>header := Some h\<rparr>
                         in if \<not> isHeaderCompatible h
                              then Returned False outView
                                     ''SModel header incompatible (bad magic or unsupported version).''
                            else if fileSizeBytes h \<noteq> 0 \<and> fileSizeBytes h \<noteq> uFileSize
                              then Returned False outView
                                     ''SModel header fileSizeBytes does not match actual file size.''
                            else
                              (case validateSectionBounds a h uFileSize of
                                 Reject e \<Rightarrow> Returned False outView e
                               | OutOfBounds \<Rightarrow> Undefined
                               | Pass \<Rightarrow>
                                   let outView = buildViews h outView
                                   in (case crossValidate a outView img uFileSize h of
                                         Reject e \<Rightarrow> Returned False outView e
                                       | OutOfBounds \<Rightarrow> Undefined
                                       | Pass \<Rightarrow> Returned True outView outError)))"

declare dec.simps [simp del]

section \<open>Sample: VerifyLoadSModel.cpp, the node graph block\<close>

text \<open>
  \<^verbatim>\<open>ModelAsset::ModelNode\<close>, with the fields the block reads. The matrix type
  \<^verbatim>\<open>glm::mat4\<close> is the type parameter \<open>'m\<close>; the product \<^verbatim>\<open>operator*\<close>, the
  identity \<^verbatim>\<open>glm::mat4(1.0f)\<close> and the element-wise \<^verbatim>\<open>nearlyEqual\<close> test are
  parameters of the functions that use them.
\<close>

record 'm ModelNode =
  n_parentIndex :: u32
  n_firstChildIndex :: u32
  n_childCount :: u32
  n_firstPrimitiveIndex :: u32
  n_primitiveCount :: u32
  n_localMatrix :: 'm
  n_globalMatrix :: 'm

text \<open>\<^verbatim>\<open>nodeCount = static_cast<uint32_t>(nodes.size())\<close>.\<close>

definition nodeCountOf :: "'m ModelNode list \<Rightarrow> u32" where
  "nodeCountOf nds = of_nat (length nds)"

subsection \<open>The first loop: bounds checks\<close>

definition parentIndexOk :: "'m ModelNode list \<Rightarrow> nat \<Rightarrow> bool" where
  "parentIndexOk nds i =
     (let n = nds ! i
      in \<not> (n_parentIndex n \<noteq> U32_MAX \<and> n_parentIndex n \<ge> nodeCountOf nds))"

text \<open>The inner loop leaves at the first child that is out of bounds or names another
  parent; either way \<^verbatim>\<open>nodeOk\<close> is false afterwards.\<close>

definition childLinksOk :: "'m ModelNode list \<Rightarrow> u32 list \<Rightarrow> nat \<Rightarrow> bool" where
  "childLinksOk nds nc i =
     (let n = nds ! i
      in if n_childCount n > 0
         then (if n_firstChildIndex n = U32_MAX
                  \<or> unat (n_firstChildIndex n) + unat (n_childCount n) > length nc
               then False
               else list_all
                      (\<lambda>k. let c = nc ! unat (n_firstChildIndex n + of_nat k)
                           in if c \<ge> nodeCountOf nds then False
                              else if n_parentIndex (nds ! unat c) \<noteq> of_nat i then False
                              else True)
                      [0 ..< unat (n_childCount n)])
         else True)"

text \<open>The range test adds in 32 bits; the loop stops at the first index past the end
  of \<^verbatim>\<open>np\<close>.\<close>

definition primitiveRefsOk :: "'m ModelNode list \<Rightarrow> u32 list \<Rightarrow> u32 \<Rightarrow> nat \<Rightarrow> bool" where
  "primitiveRefsOk nds np primCount i =
     (let n = nds ! i
      in if n_primitiveCount n > 0
         then \<not> (unat (n_firstPrimitiveIndex n + n_primitiveCount n) > length np)
              \<and> list_all (\<lambda>k. \<not> (np ! unat (n_firstPrimitiveIndex n + of_nat k) \<ge> primCount))
                   (takeWhile (\<lambda>k. unat (n_firstPrimitiveIndex n + of_nat k) < length np)
                      [0 ..< unat (n_primitiveCount n)])
         else True)"

definition boundsChecksOk :: "'m ModelNode list \<Rightarrow> u32 list \<Rightarrow> u32 list \<Rightarrow> u32 \<Rightarrow> bool" where
  "boundsChecksOk nds np nc primCount =
     list_all (\<lambda>i. parentIndexOk nds i \<and> childLinksOk nds nc i
                   \<and> primitiveRefsOk nds np primCount i)
       [0 ..< unat (nodeCountOf nds)]"

subsection \<open>The traversal\<close>

text \<open>The two vectors the lambda captures by reference.\<close>

record 'm dfs_state =
  visited :: "bool list"
  expectedGlobals :: "'m list"

text \<open>
  The recursive lambda \<^verbatim>\<open>dfs\<close> and its loop over the children of \<open>idx\<close>. The first
  argument bounds the depth of the recursion: a call one level down gets one less, and
  \<open>None\<close> means the bound was too small. The parent matrix is passed as the value of
  \<^verbatim>\<open>expectedGlobals[idx]\<close> at the call.
\<close>

fun dfs :: "nat \<Rightarrow> ('m \<Rightarrow> 'm \<Rightarrow> 'm) \<Rightarrow> 'm ModelNode list \<Rightarrow> u32 list
              \<Rightarrow> u32 \<Rightarrow> 'm \<Rightarrow> 'm dfs_state \<Rightarrow> 'm dfs_state option"
  and dfs_children :: "nat \<Rightarrow> ('m \<Rightarrow> 'm \<Rightarrow> 'm) \<Rightarrow> 'm ModelNode list \<Rightarrow> u32 list
              \<Rightarrow> u32 \<Rightarrow> nat list \<Rightarrow> 'm dfs_state \<Rightarrow> 'm dfs_state option"
where
  "dfs 0 mul nds nc idx parent st = None"
| "dfs (Suc depth) mul nds nc idx parent st =
     (if idx \<ge> nodeCountOf nds then Some st
      else if visited st ! unat idx then Some st
      else
        let n = nds ! unat idx;
            st1 = st\<lparr>visited := (visited st)[unat idx := True],
                     expectedGlobals :=
                       (expectedGlobals st)[unat idx := mul parent (n_localMatrix n)]\<rparr>
        in if n_childCount n = 0 \<or> n_firstChildIndex n = U32_MAX then Some st1
           else if unat (n_firstChildIndex n) + unat (n_childCount n) > length nc then Some st1
           else dfs_children depth mul nds nc idx [0 ..< unat (n_childCount n)] st1)"
| "dfs_children depth mul nds nc idx [] st = Some st"
| "dfs_children depth mul nds nc idx (k # ks) st =
     (case dfs depth mul nds nc
             (nc ! unat (n_firstChildIndex (nds ! unat idx) + of_nat k))
             (expectedGlobals st ! unat idx) st of
        None \<Rightarrow> None
      | Some st' \<Rightarrow> dfs_children depth mul nds nc idx ks st')"

text \<open>The loop that starts \<^verbatim>\<open>dfs\<close> at every root, over the node indices \<open>is\<close>.\<close>

fun dfs_roots :: "nat \<Rightarrow> ('m \<Rightarrow> 'm \<Rightarrow> 'm) \<Rightarrow> 'm \<Rightarrow> 'm ModelNode list \<Rightarrow> u32 list
              \<Rightarrow> nat list \<Rightarrow> 'm dfs_state \<Rightarrow> 'm dfs_state option" where
  "dfs_roots depth mul ident nds nc [] st = Some st"
| "dfs_roots depth mul ident nds nc (i # is) st =
     (if n_parentIndex (nds ! i) = U32_MAX
      then (case dfs depth mul nds nc (of_nat i) ident st of
              None \<Rightarrow> None
            | Some st' \<Rightarrow> dfs_roots depth mul ident nds nc is st')
      else dfs_roots depth mul ident nds nc is st)"

definition initialState :: "'m \<Rightarrow> 'm ModelNode list \<Rightarrow> 'm dfs_state" where
  "initialState ident nds =
     \<lparr>visited = replicate (unat (nodeCountOf nds)) False,
      expectedGlobals = replicate (unat (nodeCountOf nds)) ident\<rparr>"

text \<open>The traversal from every root, with a depth bound of one more than the number of
  nodes.\<close>

definition computeExpectedGlobals ::
    "('m \<Rightarrow> 'm \<Rightarrow> 'm) \<Rightarrow> 'm \<Rightarrow> 'm ModelNode list \<Rightarrow> u32 list \<Rightarrow> 'm dfs_state option" where
  "computeExpectedGlobals mul ident nds nc =
     dfs_roots (Suc (unat (nodeCountOf nds))) mul ident nds nc
       [0 ..< unat (nodeCountOf nds)] (initialState ident nds)"

subsection \<open>The last loop and the verdict\<close>

text \<open>Nodes the traversal did not visit are skipped; a visited node whose stored global
  matrix is not near the expected one clears \<^verbatim>\<open>nodeOk\<close>.\<close>

definition globalsMatch :: "('m \<Rightarrow> 'm \<Rightarrow> bool) \<Rightarrow> 'm ModelNode list \<Rightarrow> 'm dfs_state \<Rightarrow> bool" where
  "globalsMatch near nds st =
     list_all (\<lambda>i. if \<not> visited st ! i then True
                   else near (expectedGlobals st ! i) (n_globalMatrix (nds ! i)))
       [0 ..< unat (nodeCountOf nds)]"

text \<open>The value of \<^verbatim>\<open>nodeOk\<close> at the end of the block, \<open>None\<close> if the traversal ran
  out of depth.\<close>

definition verifyNodeGraph ::
    "('m \<Rightarrow> 'm \<Rightarrow> 'm) \<Rightarrow> 'm \<Rightarrow> ('m \<Rightarrow> 'm \<Rightarrow> bool) \<Rightarrow> 'm ModelNode list
       \<Rightarrow> u32 list \<Rightarrow> u32 list \<Rightarrow> u32 \<Rightarrow> bool option" where
  "verifyNodeGraph mul ident near nds np nc primCount =
     (case computeExpectedGlobals mul ident nds nc of
        None \<Rightarrow> None
      | Some st \<Rightarrow> Some (boundsChecksOk nds np nc primCount \<and> globalsMatch near nds st))"

section \<open>Auxiliary notions and example inputs\<close>

text \<open>A rejection is descriptive when its error text is not empty.\<close>

definition descriptive :: "check \<Rightarrow> bool" where
  "descriptive c = (case c of Reject e \<Rightarrow> e \<noteq> [] | _ \<Rightarrow> True)"

text \<open>The view once the loader has stored the bytes and the header pointer.\<close>

definition headerView :: "u64 \<Rightarrow> file_image \<Rightarrow> SModelFileView" where
  "headerView sz img = emptyView\<lparr>fileBytes := Some (sz, img), header := Some (headerAt0 img)\<rparr>"

text \<open>The call returned true.\<close>

definition accepted :: "load_outcome \<Rightarrow> bool" where
  "accepted r = (case r of Returned ok v e \<Rightarrow> ok | Undefined \<Rightarrow> False)"

text \<open>
  Struct sizes for the closed examples below. The examples need only that a header fits
  into 2048 bytes and a mesh record into 2048 more; theorems that quantify over the sizes
  do not depend on these numbers.
\<close>

definition example_abi :: abi where
  "example_abi = \<lparr>sizeofHeader = 136, sizeofMeshRecord = 96, sizeofPrimitiveRecord = 20,
     sizeofMaterialRecord = 88, sizeofTextureRecord = 48\<rparr>"

text \<open>Value-initialised records, as \<^verbatim>\<open>SModelHeader header{}\<close> in the cooker.\<close>

definition zeroHeader :: SModelHeader where
  "zeroHeader = \<lparr>magic = 0, versionMajor = 0, versionMinor = 0, meshCount = 0,
     primitiveCount = 0, materialCount = 0, textureCount = 0, nodeCount = 0,
     nodePrimitiveIndexCount = 0, nodeChildIndicesCount = 0, meshesOffset = 0,
     primitivesOffset = 0, materialsOffset = 0, texturesOffset = 0, nodesOffset = 0,
     nodePrimitiveIndicesOffset = 0, nodeChildIndicesOffset = 0, stringTableOffset = 0,
     stringTableSize = 0, blobOffset = 0, blobSize = 0, fileSizeBytes = 0\<rparr>"

definition zeroMesh :: SModelMeshRecord where
  "zeroMesh = \<lparr>vertexCount = 0, vertexStride = 0, vertexDataOffset = 0, vertexDataSize = 0,
     indexDataOffset = 0, indexDataSize = 0\<rparr>"

definition zeroNode :: SModelNodeRecord where
  "zeroNode = \<lparr>nr_nameStrOffset = 0, nr_parentIndex = 0, nr_firstChildIndex = 0,
     nr_childCount = 0, nr_firstPrimitiveIndex = 0, nr_primitiveCount = 0,
     nr_localMatrix = replicate 16 0\<rparr>"

text \<open>A buffer with the given header and zero bytes everywhere else.\<close>

definition imageWithHeader :: "SModelHeader \<Rightarrow> file_image" where
  "imageWithHeader h = \<lparr>headerAt0 = h, meshAt = (\<lambda>_. zeroMesh),
     primitiveAt = (\<lambda>_. \<lparr>meshIndex = 0, materialIndex = 0\<rparr>),
     materialAt = (\<lambda>_. \<lparr>baseColorTexture = 0, normalTexture = 0,
                          metallicRoughnessTexture = 0, occlusionTexture = 0,
                          emissiveTexture = 0\<rparr>),
     textureAt = (\<lambda>_. \<lparr>imageDataOffset = 0, imageDataSize = 0\<rparr>),
     nodeAt = (\<lambda>_. zeroNode), u32At = (\<lambda>_. 0)\<rparr>"

text \<open>The header of a model without any record.\<close>

definition emptyModelHeader :: SModelHeader where
  "emptyModelHeader = zeroHeader\<lparr>magic := SMODEL_MAGIC, versionMajor := SMODEL_VERSION_MAJOR,
     versionMinor := SMODEL_VERSION_MINOR\<rparr>"

text \<open>The same header with the lowest byte of the magic changed from 0x53 to 0x54.\<close>

definition badMagicHeader :: SModelHeader where
  "badMagicHeader = emptyModelHeader\<lparr>magic := 0x444F4D54\<rparr>"

text \<open>A 4096-byte file with one mesh record at byte 2048, all of whose bytes are zero:
  its vertex count and stride are zero.\<close>

definition zeroMeshHeader :: SModelHeader where
  "zeroMeshHeader = emptyModelHeader\<lparr>meshCount := 1, meshesOffset := 2048,
     fileSizeBytes := 4096\<rparr>"

text \<open>
  A 4096-byte file with an empty blob (\<^verbatim>\<open>blobSize = 0\<close>) and one mesh record at byte
  2048 that claims one vertex byte at blob offset \<open>2\<^sup>6\<^sup>4 - 1\<close>.
\<close>

definition overflowMesh :: SModelMeshRecord where
  "overflowMesh = \<lparr>vertexCount = 1, vertexStride = 1, vertexDataOffset = 0xFFFFFFFFFFFFFFFF,
     vertexDataSize = 1, indexDataOffset = 0, indexDataSize = 0\<rparr>"

definition overflowMeshImage :: file_image where
  "overflowMeshImage = (imageWithHeader zeroMeshHeader)
     \<lparr>meshAt := (\<lambda>addr. if addr = 2048 then overflowMesh else zeroMesh)\<rparr>"

text \<open>
  A 4096-byte file with one node record at byte 2048 and no node-child-index table
  (\<^verbatim>\<open>nodeChildIndicesCount = 0\<close>). The node is a root and declares one child, at
  position 0 of that table.
\<close>

definition danglingChildHeader :: SModelHeader where
  "danglingChildHeader = emptyModelHeader\<lparr>nodeCount := 1, nodesOffset := 2048,
     fileSizeBytes := 4096\<rparr>"

definition danglingChildNode :: SModelNodeRecord where
  "danglingChildNode = zeroNode\<lparr>nr_parentIndex := U32_MAX, nr_firstChildIndex := 0,
     nr_childCount := 1\<rparr>"

definition danglingChildImage :: file_image where
  "danglingChildImage = (imageWithHeader danglingChildHeader)
     \<lparr>nodeAt := (\<lambda>addr. if addr = 2048 then danglingChildNode else zeroNode)\<rparr>"

subsection \<open>Notions for the node graph traversal\<close>

text \<open>The equations of \<open>dfs\<close> are applied by name.\<close>

declare dfs.simps [simp del]

text \<open>The node count as a natural number.\<close>
definition nodeTotal :: "'m ModelNode list \<Rightarrow> nat" where
  "nodeTotal nds = unat (nodeCountOf nds)"

text \<open>Both captured vectors have one entry per node, as constructed before the traversal.\<close>
definition wf_state :: "'m ModelNode list \<Rightarrow> 'm dfs_state \<Rightarrow> bool" where
  "wf_state nds st \<longleftrightarrow> length (visited st) = nodeTotal nds \<and> length (expectedGlobals st) = nodeTotal nds"

text \<open>The number of nodes not yet marked visited.\<close>
definition unvisited :: "'m ModelNode list \<Rightarrow> 'm dfs_state \<Rightarrow> nat" where
  "unvisited nds st = card {i. i < nodeTotal nds \<and> \<not> visited st ! i}"

text \<open>A later state keeps every mark and every expected global of an earlier one.\<close>
definition keeps_visited :: "'m ModelNode list \<Rightarrow> 'm dfs_state \<Rightarrow> 'm dfs_state \<Rightarrow> bool" where
  "keeps_visited nds st st' \<longleftrightarrow>
     (\<forall>i < nodeTotal nds. visited st ! i \<longrightarrow> visited st' ! i \<and> expectedGlobals st' ! i = expectedGlobals st ! i)"

text \<open>The two assignments of the lambda at a fresh node: \<^verbatim>\<open>visited[idx] = 1\<close> and
  \<^verbatim>\<open>expectedGlobals[idx] = parent * n.localMatrix\<close>.\<close>
definition mark :: "('m \<Rightarrow> 'm \<Rightarrow> 'm) \<Rightarrow> 'm ModelNode list \<Rightarrow> u32 \<Rightarrow> 'm \<Rightarrow> 'm dfs_state \<Rightarrow> 'm dfs_state" where
  "mark mul nds idx parent st =
     st\<lparr>visited := (visited st)[unat idx := True],
        expectedGlobals := (expectedGlobals st)[unat idx := mul parent (n_localMatrix (nds ! unat idx))]\<rparr>"

text \<open>The lambda goes on to the child loop of node \<open>i\<close>: neither of its two early returns
  after the assignment is taken.\<close>
definition descends :: "'m ModelNode list \<Rightarrow> u32 list \<Rightarrow> nat \<Rightarrow> bool" where
  "descends nds nc i \<longleftrightarrow>
     \<not> (n_childCount (nds ! i) = 0 \<or> n_firstChildIndex (nds ! i) = U32_MAX
        \<or> unat (n_firstChildIndex (nds ! i)) + unat (n_childCount (nds ! i)) > length nc)"

text \<open>The child indices the lambda reads for node \<open>i\<close>, in loop order.\<close>
definition kids :: "'m ModelNode list \<Rightarrow> u32 list \<Rightarrow> nat \<Rightarrow> u32 list" where
  "kids nds nc i =
     (let n = nds ! i
      in if n_childCount n = 0 \<or> n_firstChildIndex n = U32_MAX
            \<or> unat (n_firstChildIndex n) + unat (n_childCount n) > length nc
         then []
         else map (\<lambda>k. nc ! unat (n_firstChildIndex n + of_nat k)) [0 ..< unat (n_childCount n)])"

text \<open>Reachable from a root: a node whose parent index is the sentinel, or an in-range
  child read from the child-index table at a reachable node.\<close>
inductive reachable :: "'m ModelNode list \<Rightarrow> u32 list \<Rightarrow> nat \<Rightarrow> bool"
  for nds :: "'m ModelNode list" and nc :: "u32 list"
where
  root: "i < unat (nodeCountOf nds) \<Longrightarrow> n_parentIndex (nds ! i) = U32_MAX \<Longrightarrow> reachable nds nc i"
| child: "reachable nds nc p \<Longrightarrow> c \<in> set (kids nds nc p) \<Longrightarrow> unat c < unat (nodeCountOf nds)
          \<Longrightarrow> reachable nds nc (unat c)"

text \<open>The child-link part of the first loop passes at every node.\<close>
definition links_ok :: "'m ModelNode list \<Rightarrow> u32 list \<Rightarrow> bool" where
  "links_ok nds nc \<longleftrightarrow> (\<forall>i < nodeTotal nds. childLinksOk nds nc i)"

text \<open>The expected global of node \<open>i\<close> is the product of its parent's expected global and
  its own local matrix, with the identity in place of the parent's global at a root.\<close>
definition global_ok :: "('m \<Rightarrow> 'm \<Rightarrow> 'm) \<Rightarrow> 'm \<Rightarrow> 'm ModelNode list \<Rightarrow> 'm dfs_state \<Rightarrow> nat \<Rightarrow> bool" where
  "global_ok mul ident nds st i \<longleftrightarrow>
     (if n_parentIndex (nds ! i) = U32_MAX
      then expectedGlobals st ! i = mul ident (n_localMatrix (nds ! i))
      else unat (n_parentIndex (nds ! i)) < nodeTotal nds
           \<and> visited st ! unat (n_parentIndex (nds ! i))
           \<and> expectedGlobals st ! i
               = mul (expectedGlobals st ! unat (n_parentIndex (nds ! i))) (n_localMatrix (nds ! i)))"

definition inv_globals :: "('m \<Rightarrow> 'm \<Rightarrow> 'm) \<Rightarrow> 'm \<Rightarrow> 'm ModelNode list \<Rightarrow> 'm dfs_state \<Rightarrow> bool" where
  "inv_globals mul ident nds st \<longleftrightarrow> (\<forall>i < nodeTotal nds. visited st ! i \<longrightarrow> global_ok mul ident nds st i)"

text \<open>A call of the lambda at a fresh node is given that node's parent global.\<close>
definition call_ok :: "'m \<Rightarrow> 'm ModelNode list \<Rightarrow> u32 \<Rightarrow> 'm \<Rightarrow> 'm dfs_state \<Rightarrow> bool" where
  "call_ok ident nds idx parent st \<longleftrightarrow>
     (unat idx < nodeTotal nds \<and> \<not> visited st ! unat idx \<longrightarrow>
        (if n_parentIndex (nds ! unat idx) = U32_MAX then parent = ident
         else unat (n_parentIndex (nds ! unat idx)) < nodeTotal nds
              \<and> visited st ! unat (n_parentIndex (nds ! unat idx))
              \<and> parent = expectedGlobals st ! unat (n_parentIndex (nds ! unat idx))))"

text \<open>Every node marked between two states has had all its in-range children marked.\<close>
definition closes :: "'m ModelNode list \<Rightarrow> u32 list \<Rightarrow> 'm dfs_state \<Rightarrow> 'm dfs_state \<Rightarrow> bool" where
  "closes nds nc st st' \<longleftrightarrow>
     (\<forall>i < nodeTotal nds. visited st' ! i \<and> \<not> visited st ! i \<longrightarrow>
        (\<forall>c \<in> set (kids nds nc i). unat c < nodeTotal nds \<longrightarrow> visited st' ! unat c))"

text \<open>Every expected global is the identity.\<close>
definition all_ident :: "'m \<Rightarrow> 'm ModelNode list \<Rightarrow> 'm dfs_state \<Rightarrow> bool" where
  "all_ident ident nds st \<longleftrightarrow> (\<forall>i < nodeTotal nds. expectedGlobals st ! i = ident)"

text \<open>A node without primitives whose stored global equals its local matrix.\<close>
definition mkNode :: "u32 \<Rightarrow> u32 \<Rightarrow> u32 \<Rightarrow> 'm \<Rightarrow> 'm \<Rightarrow> 'm ModelNode" where
  "mkNode p f c l g = \<lparr>n_parentIndex = p, n_firstChildIndex = f, n_childCount = c,
     n_firstPrimitiveIndex = 0, n_primitiveCount = 0, n_localMatrix = l, n_globalMatrix = g\<rparr>"

text \<open>Four nodes: root 0 with children 1 and 2, node 1 with child 3. The child-index table
  is \<open>[1, 2, 3]\<close>: node 0 owns positions 0 and 1, node 1 owns position 2.\<close>
definition exampleTree :: "'m \<Rightarrow> 'm \<Rightarrow> 'm \<Rightarrow> 'm \<Rightarrow> 'm ModelNode list" where
  "exampleTree lR l1 l2 l3 =
     [mkNode U32_MAX 0 2 lR lR, mkNode 0 2 1 l1 l1, mkNode 0 U32_MAX 0 l2 l2, mkNode 1 U32_MAX 0 l3 l3]"

definition exampleTreeChildren :: "u32 list" where
  "exampleTreeChildren = [1, 2, 3]"

text \<open>Two nodes without a root: node 0 has the one child 1 and names 1 as its parent, node 1
  has the one child 0 and names 0 as its parent.\<close>
definition cyclicPair :: "'m \<Rightarrow> 'm \<Rightarrow> 'm ModelNode list" where
  "cyclicPair l0 l1 = [mkNode 1 0 1 l0 l0, mkNode 0 1 1 l1 l1]"

definition cyclicPairChildren :: "u32 list" where
  "cyclicPairChildren = [1, 0]"

text \<open>Integer 2x2 matrices in row-major order, a concrete instance of the matrix product
  and identity.\<close>
type_synonym mat2 = "int \<times> int \<times> int \<times> int"

definition mat2_mul :: "mat2 \<Rightarrow> mat2 \<Rightarrow> mat2" where
  "mat2_mul x y = (case x of (a, b, c, d) \<Rightarrow> case y of (e, f, g, h) \<Rightarrow>
     (a * e + b * g, a * f + b * h, c * e + d * g, c * f + d * h))"

definition mat2_ident :: mat2 where
  "mat2_ident = (1, 0, 0, 1)"

section \<open>Properties of the component registry\<close>

text \<open>
  Claim C9. Registration is idempotent and ordering-stable: registering a name and then
  registering it again returns the same id; a name the registry has not seen gets the
  number of components registered before the call; \<^verbatim>\<open>ensureId\<close> on such a name
  registers it, returns that same fresh id (a later lookup finds it), and the component
  count grows by one.
\<close>

theorem registerComponent_idempotent_sequential:
  "fst (registerComponent (snd (registerComponent r name)) name) = fst (registerComponent r name)
   \<and> (m_nameToId r name = None \<longrightarrow>
         fst (registerComponent r name) = count_components r
       \<and> fst (ensureId r name) = count_components r
       \<and> getId (snd (ensureId r name)) name = count_components r
       \<and> count_components (snd (ensureId r name)) = count_components r + 1)"
  by (auto simp: registerComponent_def ensureId_def getId_def count_components_def Let_def
           split: option.splits)

theorem registerComponent_idempotent_sequential_witness:
  "m_nameToId (snd (registerComponent emptyRegistry ''Position'')) ''Velocity'' = None
   \<and> fst (registerComponent emptyRegistry ''Position'') = 0
   \<and> fst (ensureId (snd (registerComponent emptyRegistry ''Position'')) ''Velocity'') = 1
   \<and> fst (registerComponent (snd (registerComponent emptyRegistry ''Position'')) ''Position'') = 0"
  using registerComponent_idempotent_sequential [of emptyRegistry "''Position''"]
        registerComponent_idempotent_sequential
          [of "snd (registerComponent emptyRegistry ''Position'')" "''Velocity''"]
  by (simp add: emptyRegistry_def registerComponent_def count_components_def Let_def)

section \<open>Properties of the component mask\<close>

lemma bit_u64_bound: "bit (w::u64) n \<Longrightarrow> n < 64"
  using bit_imp_le_length [of w n] by simp

lemma word_and_eq_iff: "((a::u64) AND b) = b \<longleftrightarrow> (\<forall>n. bit b n \<longrightarrow> bit a n)"
  by (auto simp: bit_eq_iff bit_and_iff dest: bit_u64_bound)

lemma word_and_zero_iff: "((a::u64) AND b) = 0 \<longleftrightarrow> (\<forall>n. \<not> (bit a n \<and> bit b n))"
  by (auto simp: bit_eq_iff bit_and_iff dest: bit_u64_bound)

lemma bit_is_set_word: "bit_is_set ws i = bit (word_or_zero ws (i div 64)) (i mod 64)"
  by (simp add: bit_is_set_def word_or_zero_def)

lemma bit_word_or_zero: "bit (word_or_zero ws w) n \<longleftrightarrow> n < 64 \<and> bit_is_set ws (64 * w + n)"
proof (cases "n < 64")
  case True
  then show ?thesis by (simp add: bit_is_set_def word_or_zero_def)
next
  case False
  then have "\<not> bit (word_or_zero ws w) n"
    using bit_u64_bound [of "word_or_zero ws w" n] by auto
  with False show ?thesis by simp
qed

lemma bit_is_set_lt_max:
  "bit_is_set b i \<Longrightarrow> i div 64 < max (length a) (length b)"
  "bit_is_set a i \<Longrightarrow> i div 64 < max (length a) (length b)"
  by (simp_all add: bit_is_set_def less_max_iff_disj)

text \<open>\<^verbatim>\<open>has\<close> reads exactly the semantic bit-set.\<close>

lemma mask_has_bit: "mask_has ws c = bit_is_set ws (unat c)"
  by (simp add: mask_has_def bitPos_def bit_is_set_def and_exp_eq_0_iff_not_bit)

lemma containsAll_iff: "containsAll a b \<longleftrightarrow> (\<forall>i. bit_is_set b i \<longrightarrow> bit_is_set a i)"
proof
  assume h: "containsAll a b"
  show "\<forall>i. bit_is_set b i \<longrightarrow> bit_is_set a i"
  proof (intro allI impI)
    fix i assume s: "bit_is_set b i"
    then have "i div 64 < max (length a) (length b)" by (rule bit_is_set_lt_max)
    with h have "(word_or_zero a (i div 64) AND word_or_zero b (i div 64))
                   = word_or_zero b (i div 64)"
      by (simp add: containsAll_def list_all_iff)
    with s show "bit_is_set a i" by (simp add: bit_is_set_word word_and_eq_iff)
  qed
next
  assume h: "\<forall>i. bit_is_set b i \<longrightarrow> bit_is_set a i"
  show "containsAll a b"
    unfolding containsAll_def list_all_iff word_and_eq_iff
    using h by (auto simp: bit_word_or_zero)
qed

lemma containsNone_iff: "containsNone a b \<longleftrightarrow> \<not> (\<exists>i. bit_is_set a i \<and> bit_is_set b i)"
proof
  assume h: "containsNone a b"
  show "\<not> (\<exists>i. bit_is_set a i \<and> bit_is_set b i)"
  proof
    assume "\<exists>i. bit_is_set a i \<and> bit_is_set b i"
    then obtain i where s: "bit_is_set a i" "bit_is_set b i" by blast
    then have "i div 64 < max (length a) (length b)" by (simp add: bit_is_set_lt_max)
    with h have "(word_or_zero a (i div 64) AND word_or_zero b (i div 64)) = 0"
      by (simp add: containsNone_def list_all_iff)
    with s show False by (simp add: bit_is_set_word word_and_zero_iff)
  qed
next
  assume h: "\<not> (\<exists>i. bit_is_set a i \<and> bit_is_set b i)"
  show "containsNone a b"
    unfolding containsNone_def list_all_iff word_and_zero_iff
    using h by (auto simp: bit_word_or_zero)
qed

text \<open>
  Claim C8. For all masks A and B, whatever their numbers of backing words:
  \<^verbatim>\<open>A.containsAll(B)\<close> holds exactly when every bit set in B is set in A,
  \<^verbatim>\<open>A.containsNone(B)\<close> exactly when no bit is set in both (a word missing from
  the shorter operand counts as zero), and \<^verbatim>\<open>A.matches(required, excluded)\<close> is
  \<^verbatim>\<open>A.containsAll(required) && A.containsNone(excluded)\<close>.
\<close>

theorem mask_containment_laws:
  "(containsAll A B \<longleftrightarrow> (\<forall>i. bit_is_set B i \<longrightarrow> bit_is_set A i))
   \<and> (containsNone A B \<longleftrightarrow> \<not> (\<exists>i. bit_is_set A i \<and> bit_is_set B i))
   \<and> (matches A required excluded \<longleftrightarrow> containsAll A required \<and> containsNone A excluded)"
  by (simp add: containsAll_iff containsNone_iff matches_def)

text \<open>The witness: A = [5] has one backing word, B = [1, 0] has two; bit 0 is set in B
  and so in A, and bit 2 is set in A and in [4].\<close>

theorem mask_containment_laws_witness:
  "containsAll [5] [1, 0] \<and> bit_is_set [1, 0] 0 \<and> bit_is_set [5] 0
   \<and> \<not> containsNone [5] [4] \<and> matches [5] [1, 0] [2, 0]"
proof -
  have a: "containsAll [5] [1, 0]" by code_simp
  have b: "bit_is_set [1, 0] 0" by (simp add: bit_is_set_def)
  have c: "bit_is_set [5] 0" 
    using mask_containment_laws [of "[5]" "[1, 0]"] a b by blast
  have d: "bit_is_set [5] 2 \<and> bit_is_set [4] 2" by code_simp
  have e: "\<not> containsNone [5] [4]"
    using mask_containment_laws [of "[5]" "[4]"] d by blast
  have f: "containsNone [5] [2, 0]" by code_simp
  have g: "matches [5] [1, 0] [2, 0]"
    using mask_containment_laws [of "[5]" "[1, 0]" "[1, 0]" "[2, 0]"] a f by blast
  from a b c e g show ?thesis by blast
qed

lemma length_ensureBit: "length (ensureBit ws c) = max (length ws) (unat c div 64 + 1)"
  by (simp add: ensureBit_def Let_def)

lemma length_mask_set: "length (mask_set ws c) = max (length ws) (unat c div 64 + 1)"
  by (simp add: mask_set_def Let_def bitPos_def length_ensureBit)

lemma bit_is_set_ensureBit: "bit_is_set (ensureBit ws c) i = bit_is_set ws i"
  by (auto simp: ensureBit_def Let_def bit_is_set_def nth_append)

lemma bit_is_set_mask_set: "bit_is_set (mask_set ws c) i \<longleftrightarrow> i = unat c \<or> bit_is_set ws i"
proof -
  let ?e = "ensureBit ws c"
  have len: "unat c div 64 < length ?e" by (simp add: length_ensureBit)
  have "bit_is_set (mask_set ws c) i \<longleftrightarrow> i = unat c \<or> bit_is_set ?e i"
  proof (cases "i div 64 = unat c div 64")
    case True
    have "i = unat c \<longleftrightarrow> i mod 64 = unat c mod 64"
      using True by (metis div_mult_mod_eq)
    with True len show ?thesis
      by (auto simp: mask_set_def Let_def bitPos_def bit_is_set_def bit_simps)
  next
    case False
    then have "i \<noteq> unat c" by auto
    with False show ?thesis
      by (auto simp: mask_set_def Let_def bitPos_def bit_is_set_def)
  qed
  then show ?thesis by (simp add: bit_is_set_ensureBit)
qed

lemma bit_is_set_fold:
  "bit_is_set (fold (\<lambda>cid m. mask_set m cid) ids ws) i
     \<longleftrightarrow> i \<in> unat ` set ids \<or> bit_is_set ws i"
  by (induction ids arbitrary: ws) (auto simp: bit_is_set_mask_set)

lemma length_fold_mask_set:
  "length (fold (\<lambda>cid m. mask_set m cid) ids ws)
     = Max (insert (length ws) ((\<lambda>c. unat c div 64 + 1) ` set ids))"
proof (induction ids arbitrary: ws)
  case Nil
  then show ?case by simp
next
  case (Cons c cs)
  have "Max (insert (max (length ws) (unat c div 64 + 1)) ((\<lambda>c. unat c div 64 + 1) ` set cs))
      = Max (insert (length ws) (insert (unat c div 64 + 1) ((\<lambda>c. unat c div 64 + 1) ` set cs)))"
    by (cases "set cs = {}") (simp_all add: max.assoc)
  with Cons show ?case by (simp only: fold_simps set_simps image_insert length_mask_set)
qed

text \<open>A mask is determined by its number of backing words and its bit-set.\<close>

lemma mask_ext:
  assumes "length a = length b" and "\<And>i. bit_is_set a i = bit_is_set b i"
  shows "a = (b :: ComponentMask)"
proof (rule nth_equalityI)
  show "length a = length b" by fact
next
  fix w assume w: "w < length a"
  show "a ! w = b ! w"
  proof (rule bit_eqI)
    fix n
    assume "possible_bit TYPE(u64) n"
    then have n: "n < 64" by simp
    from assms(2) [of "64 * w + n"] w n assms(1)
    show "bit (a ! w) n = bit (b ! w) n" by (simp add: bit_is_set_def)
  qed
qed

lemma fromIds_set: "set ids1 = set ids2 \<Longrightarrow> fromIds ids1 = fromIds ids2"
  by (rule mask_ext) (simp_all add: fromIds_def length_fold_mask_set bit_is_set_fold)

text \<open>
  Claim C2, as the code has it. \<^verbatim>\<open>toKey\<close> prints every backing word, so it fixes the
  key only for masks with the same bit-set and the same number of backing words. Masks
  built by \<^verbatim>\<open>fromIds\<close> from the same set of ids, in any order and with any
  duplicates, are such masks and get the same key.
\<close>

theorem toKey_stable_same_length:
  "(set ids1 = set ids2 \<longrightarrow> toKey (fromIds ids1) = toKey (fromIds ids2))
   \<and> (length a = length b \<and> (\<forall>i. bit_is_set a i = bit_is_set b i) \<longrightarrow> toKey a = toKey b)"
  using fromIds_set [of ids1 ids2] mask_ext [of a b] by auto

theorem toKey_stable_same_length_witness:
  "set [3, 70, 3] = set [70, 3 :: u32]
   \<and> toKey (fromIds [3, 70, 3]) = toKey (fromIds [70, 3])
   \<and> toKey (fromIds [70, 3]) = ''00000000000000400000000000000008''"
proof -
  have s: "set [3, 70, 3] = set [70, 3 :: u32]" by auto
  have k: "toKey (fromIds [70, 3]) = ''00000000000000400000000000000008''" by code_simp
  from toKey_stable_same_length [of "[3, 70, 3]" "[70, 3]"] s
  have "toKey (fromIds [3, 70, 3]) = toKey (fromIds [70, 3])" by blast
  with s k show ?thesis by simp
qed

text \<open>
  The claim as stated fails: setting id 64 and clearing it again leaves a second, all-zero
  backing word behind. The mask has the bits of \<^verbatim>\<open>fromIds({0})\<close> (each contains the
  other) but a key of 32 digits instead of 16.
\<close>

theorem toKey_trailing_zero_words_counterexample:
  "containsAll (mask_clear (mask_set (fromIds [0]) 64) 64) (fromIds [0])
   \<and> containsAll (fromIds [0]) (mask_clear (mask_set (fromIds [0]) 64) 64)
   \<and> toKey (mask_clear (mask_set (fromIds [0]) 64) 64) = ''00000000000000000000000000000001''
   \<and> toKey (fromIds [0]) = ''0000000000000001''
   \<and> toKey (mask_clear (mask_set (fromIds [0]) 64) 64) \<noteq> toKey (fromIds [0])"
  by code_simp

section \<open>Properties of the loader\<close>

subsection \<open>Every rejection carries a text\<close>

lemma descriptive_simps [simp]:
  "descriptive Pass" "descriptive OutOfBounds" "descriptive (Reject e) = (e \<noteq> [])"
  by (simp_all add: descriptive_def)

lemma descriptive_firstFailure: "list_all descriptive cs \<Longrightarrow> descriptive (firstFailure cs)"
  by (induction cs rule: firstFailure.induct) simp_all

lemma descriptive_tableRangeValid: "descriptive (tableRangeValid s off c fs)"
  by (simp add: tableRangeValid_def Let_def)

lemma descriptive_validateSectionBounds: "descriptive (validateSectionBounds a h fs)"
  unfolding validateSectionBounds_def
  by (rule descriptive_firstFailure) (simp add: descriptive_tableRangeValid Let_def)

lemma descriptive_checkMesh: "descriptive (checkMesh b m i)"
  by (simp add: checkMesh_def)

lemma descriptive_checkTexture: "descriptive (checkTexture b t i)"
  by (simp add: checkTexture_def)

lemma descriptive_checkPrimitive: "descriptive (checkPrimitive h p i)"
  by (simp add: checkPrimitive_def)

lemma descriptive_checkTex: "descriptive (checkTex h i t f)"
  by (simp add: checkTex_def)

lemma descriptive_checkMaterial: "descriptive (checkMaterial h m i)"
  unfolding checkMaterial_def
  by (rule descriptive_firstFailure) (simp add: descriptive_checkTex)

lemma descriptive_checkNodePrimitive: "descriptive (checkNodePrimitive v img fs pc nr k)"
  by (simp add: checkNodePrimitive_def Let_def split: option.splits)

lemma descriptive_checkNode: "descriptive (checkNode v img fs h nr)"
  unfolding checkNode_def
  apply (rule descriptive_firstFailure)
  apply (simp add: descriptive_firstFailure list_all_iff descriptive_checkNodePrimitive)
  done

lemma descriptive_crossValidate: "descriptive (crossValidate a v img fs h)"
  unfolding crossValidate_def
  apply (rule descriptive_firstFailure)
  apply (auto simp: list_all_iff descriptive_checkMesh descriptive_checkTexture
      descriptive_checkPrimitive descriptive_checkMaterial descriptive_checkNode)
  done

lemma Load_OpenFails: "LoadSModelFile a path OpenFails v0 e0 = Returned False emptyView (''Failed to open file: '' @ path)"
  by (simp add: LoadSModelFile_def)

lemma Load_empty: "sint sz \<le> 0 \<Longrightarrow> LoadSModelFile a path (Opens sz ok img) v0 e0 = Returned False emptyView (''File is empty: '' @ path)"
  by (simp add: LoadSModelFile_def)

lemma Load_read_fails: "\<not> sint sz \<le> 0 \<Longrightarrow> LoadSModelFile a path (Opens sz False img) v0 e0 
   = Returned False (emptyView\<lparr>fileBytes := Some (sz, img)\<rparr>) (''Failed to read file bytes: '' @ path)"
  by (simp add: LoadSModelFile_def)

lemma Load_too_small: "\<not> sint sz \<le> 0 \<Longrightarrow> sz < sizeofHeader a \<Longrightarrow> LoadSModelFile a path (Opens sz True img) v0 e0 
   = Returned False (emptyView\<lparr>fileBytes := Some (sz, img)\<rparr>) ''File too small to contain SModelHeader.''"
  by (simp add: LoadSModelFile_def)

lemma Load_incompatible: "\<not> sint sz \<le> 0 \<Longrightarrow> \<not> sz < sizeofHeader a \<Longrightarrow> \<not> isHeaderCompatible (headerAt0 img) \<Longrightarrow> LoadSModelFile a path (Opens sz True img) v0 e0 
   = Returned False (headerView sz img) ''SModel header incompatible (bad magic or unsupported version).''"
  by (simp add: LoadSModelFile_def headerView_def Let_def)

lemma Load_size_mismatch: "\<not> sint sz \<le> 0 \<Longrightarrow> \<not> sz < sizeofHeader a \<Longrightarrow> isHeaderCompatible (headerAt0 img) \<Longrightarrow>
   fileSizeBytes (headerAt0 img) \<noteq> 0 \<and> fileSizeBytes (headerAt0 img) \<noteq> sz \<Longrightarrow> LoadSModelFile a path (Opens sz True img) v0 e0 
   = Returned False (headerView sz img) ''SModel header fileSizeBytes does not match actual file size.''"
  by (simp add: LoadSModelFile_def headerView_def Let_def)

lemma Load_validated: 
  assumes "\<not> sint sz \<le> 0" "\<not> sz < sizeofHeader a" "isHeaderCompatible (headerAt0 img)"
   "fileSizeBytes (headerAt0 img) = 0 \<or> fileSizeBytes (headerAt0 img) = sz" 
  shows "LoadSModelFile a path (Opens sz True img) v0 e0 
   = (case validateSectionBounds a (headerAt0 img) sz of
         Reject e \<Rightarrow> Returned False (headerView sz img) e
       | OutOfBounds \<Rightarrow> Undefined
       | Pass \<Rightarrow>
          (case crossValidate a (buildViews (headerAt0 img) (headerView sz img)) img sz (headerAt0 img) of
               Reject e \<Rightarrow> Returned False (buildViews (headerAt0 img) (headerView sz img)) e
             | OutOfBounds \<Rightarrow> Undefined
             | Pass \<Rightarrow> Returned True (buildViews (headerAt0 img) (headerView sz img)) []))"
  using assms(4)
proof
  assume "fileSizeBytes (headerAt0 img) = 0"
  with assms(1-3) show ?thesis
    by (simp add: LoadSModelFile_def headerView_def Let_def cong: check.case_cong)
next
  assume "fileSizeBytes (headerAt0 img) = sz"
  with assms(1-3) show ?thesis
    by (simp add: LoadSModelFile_def headerView_def Let_def cong: check.case_cong)
qed


lemma rejected_cases:
  assumes "\<And>v e. LoadSModelFile a path (Opens sz ok img) v0 e0 \<noteq> Returned False v e"
  shows "\<not> sint sz \<le> 0 \<and> ok \<and> \<not> sz < sizeofHeader a \<and> isHeaderCompatible (headerAt0 img)
     \<and> (fileSizeBytes (headerAt0 img) = 0 \<or> fileSizeBytes (headerAt0 img) = sz)"
proof -
  have 1: "\<not> sint sz \<le> 0" using assms Load_empty [of sz a path ok img v0 e0] by auto
  have 2: "ok" using assms 1 Load_read_fails [of sz a path img v0 e0] by (cases ok) auto
  have 3: "\<not> sz < sizeofHeader a" using assms 1 2 Load_too_small [of sz a path img v0 e0] by auto
  have 4: "isHeaderCompatible (headerAt0 img)" using assms 1 2 3 Load_incompatible [of sz a img path v0 e0] by auto
  have 5: "fileSizeBytes (headerAt0 img) = 0 \<or> fileSizeBytes (headerAt0 img) = sz"
    using assms 1 2 3 4 Load_size_mismatch [of sz a img path v0 e0] by auto
  from 1 2 3 4 5 show ?thesis by blast
qed

lemma isHeaderCompatible_iff: "isHeaderCompatible h \<longleftrightarrow> magic h = SMODEL_MAGIC \<and> versionMajor h = SMODEL_VERSION_MAJOR \<and> \<not> versionMinor h < SMODEL_VERSION_MINOR"
  by (simp add: isHeaderCompatible_def)

lemma validateSectionBounds_minor: "validateSectionBounds a (h\<lparr>versionMinor := m\<rparr>) sz = validateSectionBounds a h sz"
  by (simp add: validateSectionBounds_def)

lemma checkNodePrimitive_cong:
  "nodePrimitiveIndices v = nodePrimitiveIndices v' \<Longrightarrow> u32At img = u32At img'
   \<Longrightarrow> checkNodePrimitive v img = checkNodePrimitive v' img'"
  by (intro ext) (simp add: checkNodePrimitive_def Let_def split: option.splits)

lemma checkNode_cong:
  assumes "nodePrimitiveIndices v = nodePrimitiveIndices v'" "u32At img = u32At img'"
    "nodeCount h = nodeCount h'" "nodePrimitiveIndexCount h = nodePrimitiveIndexCount h'"
    "primitiveCount h = primitiveCount h'"
  shows "checkNode v img sz h nr = checkNode v' img' sz h' nr"
  using assms(3-5) checkNodePrimitive_cong [OF assms(1,2)]
  by (simp add: checkNode_def)

lemma checkNode_minor: "checkNode (buildViews (h\<lparr>versionMinor := m\<rparr>) (headerView sz (img\<lparr>headerAt0 := h\<lparr>versionMinor := m\<rparr>\<rparr>)))
      (img\<lparr>headerAt0 := h\<lparr>versionMinor := m\<rparr>\<rparr>) sz (h\<lparr>versionMinor := m\<rparr>) nr
   = checkNode (buildViews h (headerView sz (img\<lparr>headerAt0 := h\<rparr>))) (img\<lparr>headerAt0 := h\<rparr>) sz h nr"
  by (rule checkNode_cong) (simp_all add: buildViews_def headerView_def emptyView_def)

lemma checkPrimitive_minor: "checkPrimitive (h\<lparr>versionMinor := m\<rparr>) p i = checkPrimitive h p i"
  by (simp add: checkPrimitive_def)

lemma checkMaterial_minor: "checkMaterial (h\<lparr>versionMinor := m\<rparr>) mat i = checkMaterial h mat i"
  by (simp add: checkMaterial_def checkTex_def)

lemma crossValidate_minor: "crossValidate a (buildViews (h\<lparr>versionMinor := m\<rparr>) (headerView sz (img\<lparr>headerAt0 := h\<lparr>versionMinor := m\<rparr>\<rparr>)))
      (img\<lparr>headerAt0 := h\<lparr>versionMinor := m\<rparr>\<rparr>) sz (h\<lparr>versionMinor := m\<rparr>)
   = crossValidate a (buildViews h (headerView sz (img\<lparr>headerAt0 := h\<rparr>))) (img\<lparr>headerAt0 := h\<rparr>) sz h"
  by (simp add: crossValidate_def checkNode_minor checkPrimitive_minor checkMaterial_minor)

lemma accepted_minor:
  assumes "\<not> m < SMODEL_VERSION_MINOR" "\<not> m' < SMODEL_VERSION_MINOR"
  shows "accepted (LoadSModelFile a path (Opens sz ok (img\<lparr>headerAt0 := h\<lparr>versionMinor := m\<rparr>\<rparr>)) v0 e0)
       = accepted (LoadSModelFile a path (Opens sz ok (img\<lparr>headerAt0 := h\<lparr>versionMinor := m'\<rparr>\<rparr>)) v0 e0)"
proof -
  have *: "accepted (LoadSModelFile a path (Opens sz ok (img\<lparr>headerAt0 := h\<lparr>versionMinor := k\<rparr>\<rparr>)) v0 e0)
     = (\<not> sint sz \<le> 0 \<and> ok \<and> \<not> sz < sizeofHeader a \<and> magic h = SMODEL_MAGIC \<and> versionMajor h = SMODEL_VERSION_MAJOR
        \<and> (fileSizeBytes h = 0 \<or> fileSizeBytes h = sz) \<and> validateSectionBounds a h sz = Pass
        \<and> crossValidate a (buildViews h (headerView sz (img\<lparr>headerAt0 := h\<rparr>))) (img\<lparr>headerAt0 := h\<rparr>) sz h = Pass)"
    if k: "\<not> k < SMODEL_VERSION_MINOR" for k
  proof -
    let ?img = "img\<lparr>headerAt0 := h\<lparr>versionMinor := k\<rparr>\<rparr>"
    let ?L = "LoadSModelFile a path (Opens sz ok ?img) v0 e0"
    have hk: "headerAt0 ?img = h\<lparr>versionMinor := k\<rparr>" by simp
    show ?thesis
    proof (cases "\<not> sint sz \<le> 0 \<and> ok \<and> \<not> sz < sizeofHeader a \<and> isHeaderCompatible (headerAt0 ?img)
     \<and> (fileSizeBytes (headerAt0 ?img) = 0 \<or> fileSizeBytes (headerAt0 ?img) = sz)")
      case True
      from True have okT: "ok = True" by simp
      have "?L = (case validateSectionBounds a (headerAt0 ?img) sz of
         Reject e \<Rightarrow> Returned False (headerView sz ?img) e
       | OutOfBounds \<Rightarrow> Undefined
       | Pass \<Rightarrow>
          (case crossValidate a (buildViews (headerAt0 ?img) (headerView sz ?img)) ?img sz (headerAt0 ?img) of
               Reject e \<Rightarrow> Returned False (buildViews (headerAt0 ?img) (headerView sz ?img)) e
             | OutOfBounds \<Rightarrow> Undefined
             | Pass \<Rightarrow> Returned True (buildViews (headerAt0 ?img) (headerView sz ?img)) []))"
        unfolding okT by (rule Load_validated) (use True in blast)+
      then have "accepted ?L = (validateSectionBounds a (headerAt0 ?img) sz = Pass
           \<and> crossValidate a (buildViews (headerAt0 ?img) (headerView sz ?img)) ?img sz (headerAt0 ?img) = Pass)"
        by (simp add: accepted_def split: check.splits)
      with True k show ?thesis
        unfolding hk validateSectionBounds_minor crossValidate_minor
        by (simp add: isHeaderCompatible_iff)
    next
      case False
      then have "\<exists>v e. ?L = Returned False v e"
        using rejected_cases [of a path sz ok ?img v0 e0] by blast
      then have "\<not> accepted ?L" by (auto simp: accepted_def)
      with False k show ?thesis by (auto simp: isHeaderCompatible_iff)
    qed
  qed
  from * [OF assms(1)] * [OF assms(2)] show ?thesis by simp
qed


lemma Load_header_only:
  assumes "isHeaderCompatible (headerAt0 img)"
    and "meshCount (headerAt0 img) = 0" "primitiveCount (headerAt0 img) = 0"
        "materialCount (headerAt0 img) = 0" "textureCount (headerAt0 img) = 0"
        "nodeCount (headerAt0 img) = 0" "nodePrimitiveIndexCount (headerAt0 img) = 0"
    and "meshesOffset (headerAt0 img) = 0" "primitivesOffset (headerAt0 img) = 0"
        "materialsOffset (headerAt0 img) = 0" "texturesOffset (headerAt0 img) = 0"
    and "stringTableOffset (headerAt0 img) = 0" "stringTableSize (headerAt0 img) = 0"
        "blobOffset (headerAt0 img) = 0" "blobSize (headerAt0 img) = 0"
    and "fileSizeBytes (headerAt0 img) = 0 \<or> fileSizeBytes (headerAt0 img) = sizeofHeader a"
    and "0 < sint (sizeofHeader a)"
  shows "LoadSModelFile a path (Opens (sizeofHeader a) True img) v0 e0
         = Returned True (buildViews (headerAt0 img) (headerView (sizeofHeader a) img)) []"
proof -
  have v: "validateSectionBounds a (headerAt0 img) (sizeofHeader a) = Pass"
    using assms(2-15) by (simp add: validateSectionBounds_def tableRangeValid_def isRangeInsideFile_def)
  have c: "crossValidate a (buildViews (headerAt0 img) (headerView (sizeofHeader a) img)) img (sizeofHeader a) (headerAt0 img) = Pass"
    using assms(2-7) by (simp add: crossValidate_def)
  have "LoadSModelFile a path (Opens (sizeofHeader a) True img) v0 e0
     = (case validateSectionBounds a (headerAt0 img) (sizeofHeader a) of
         Reject e \<Rightarrow> Returned False (headerView (sizeofHeader a) img) e
       | OutOfBounds \<Rightarrow> Undefined
       | Pass \<Rightarrow>
          (case crossValidate a (buildViews (headerAt0 img) (headerView (sizeofHeader a) img)) img (sizeofHeader a) (headerAt0 img) of
               Reject e \<Rightarrow> Returned False (buildViews (headerAt0 img) (headerView (sizeofHeader a) img)) e
             | OutOfBounds \<Rightarrow> Undefined
             | Pass \<Rightarrow> Returned True (buildViews (headerAt0 img) (headerView (sizeofHeader a) img)) []))"
    using assms(1,16,17) by (intro Load_validated) auto
  then show ?thesis by (simp add: v c)
qed

lemma Load_failure_view:
  assumes "LoadSModelFile a path dfile v0 e0 = Returned False v e"
  shows "e \<noteq> [] \<and> (case dfile of OpenFails \<Rightarrow> v = emptyView
            | Opens sz ok img \<Rightarrow> if sint sz \<le> 0 then v = emptyView else fileBytes v = Some (sz, img))"
proof (cases dfile)
  case OpenFails
  with assms show ?thesis by (auto simp: Load_OpenFails)
next
  case (Opens sz ok img)
  note L = assms [unfolded Opens]
  show ?thesis
  proof (cases "sint sz \<le> 0")
    case True
    with L Opens show ?thesis by (auto simp: Load_empty)
  next
    case pos: False
    show ?thesis
    proof (cases ok)
      case False
      with L pos Opens show ?thesis by (auto simp: Load_read_fails emptyView_def)
    next
      case ok: True
      show ?thesis
      proof (cases "sz < sizeofHeader a")
        case True
        with L pos ok Opens show ?thesis by (auto simp: Load_too_small emptyView_def)
      next
        case big: False
        show ?thesis
        proof (cases "isHeaderCompatible (headerAt0 img)")
          case False
          with L pos ok big Opens show ?thesis
            by (auto simp: Load_incompatible headerView_def emptyView_def)
        next
          case compat: True
          show ?thesis
          proof (cases "fileSizeBytes (headerAt0 img) = 0 \<or> fileSizeBytes (headerAt0 img) = sz")
            case False
            with L pos ok big compat Opens show ?thesis
              by (auto simp: Load_size_mismatch headerView_def emptyView_def)
          next
            case True
            have fb: "fileBytes (headerView sz img) = Some (sz, img)"
                     "fileBytes (buildViews (headerAt0 img) (headerView sz img)) = Some (sz, img)"
              by (simp_all add: headerView_def buildViews_def emptyView_def)
            from L ok have "(case validateSectionBounds a (headerAt0 img) sz of
                 Reject e \<Rightarrow> Returned False (headerView sz img) e
               | OutOfBounds \<Rightarrow> Undefined
               | Pass \<Rightarrow>
                  (case crossValidate a (buildViews (headerAt0 img) (headerView sz img)) img sz (headerAt0 img) of
                       Reject e \<Rightarrow> Returned False (buildViews (headerAt0 img) (headerView sz img)) e
                     | OutOfBounds \<Rightarrow> Undefined
                     | Pass \<Rightarrow> Returned True (buildViews (headerAt0 img) (headerView sz img)) [])) = Returned False v e"
              using Load_validated [OF pos big compat True, of path v0 e0] by simp
            then have "e \<noteq> [] \<and> fileBytes v = Some (sz, img)"
              using descriptive_validateSectionBounds [of a "headerAt0 img" sz]
                descriptive_crossValidate [of a "buildViews (headerAt0 img) (headerView sz img)" img sz "headerAt0 img"]
                fb
              by (auto split: check.splits)
            with pos Opens show ?thesis by simp
          qed
        qed
      qed
    qed
  qed
qed

lemma Load_example_4096:
  assumes "headerAt0 img = h" "isHeaderCompatible h" "fileSizeBytes h = 4096"
  shows "LoadSModelFile example_abi path (Opens 4096 True img) v0 e0
     = (case validateSectionBounds example_abi h 4096 of
         Reject e \<Rightarrow> Returned False (headerView 4096 img) e
       | OutOfBounds \<Rightarrow> Undefined
       | Pass \<Rightarrow>
          (case crossValidate example_abi (buildViews h (headerView 4096 img)) img 4096 h of
               Reject e \<Rightarrow> Returned False (buildViews h (headerView 4096 img)) e
             | OutOfBounds \<Rightarrow> Undefined
             | Pass \<Rightarrow> Returned True (buildViews h (headerView 4096 img)) []))"
  unfolding assms(1) [symmetric]
  by (rule Load_validated) (simp_all add: assms example_abi_def)

lemma compat_examples: "isHeaderCompatible zeroMeshHeader" "isHeaderCompatible danglingChildHeader"
   "isHeaderCompatible emptyModelHeader" "\<not> isHeaderCompatible badMagicHeader"
  by (simp_all add: isHeaderCompatible_def zeroMeshHeader_def danglingChildHeader_def emptyModelHeader_def zeroHeader_def
          badMagicHeader_def SMODEL_MAGIC_def SMODEL_VERSION_MAJOR_def SMODEL_VERSION_MINOR_def)

subsection \<open>The range helper\<close>

lemma sint_pos_unat_bound:
  assumes "0 < sint (w :: u64)"
  shows "unat w < 2 ^ 63"
proof (rule ccontr)
  assume "\<not> unat w < 2 ^ 63"
  then have "(2::nat) ^ 63 \<le> unat w" by simp
  then have "int ((2::nat) ^ 63) \<le> int (unat w)" by (simp only: of_nat_le_iff)
  then have ge: "(2::int) ^ 63 \<le> uint w" by simp
  have s: "sint w = signed_take_bit 63 (uint w)" using sint_uint [of w] by simp
  have a: "signed_take_bit 63 (uint w) \<le> uint w - 18446744073709551616"
    using signed_take_bit_int_less_eq [OF ge] by simp
  have b: "uint w < 18446744073709551616" using uint_lt2p [of w] by simp
  from a b have "signed_take_bit 63 (uint w) < 0" by linarith
  with assms show False by (simp only: s)
qed

lemma isRangeInsideFile_nat:
  "isRangeInsideFile b sz fileSize \<longleftrightarrow>
     unat b \<le> unat fileSize \<and> unat sz \<le> unat fileSize \<and> unat (b + sz) \<le> unat fileSize"
  by (simp add: isRangeInsideFile_def word_less_nat_alt not_less)

text \<open>For a file size that fits the signed 64-bit \<^verbatim>\<open>std::streamsize\<close>,
  \<^verbatim>\<open>isRangeInsideFile\<close> decides the range test on the unbounded numbers: its first two
  comparisons keep the sum in the third from wrapping.\<close>

lemma isRangeInsideFile_exact:
  assumes "0 < sint fileSize"
  shows "isRangeInsideFile b sz fileSize \<longleftrightarrow> unat b + unat sz \<le> unat fileSize"
proof (cases "unat b \<le> unat fileSize \<and> unat sz \<le> unat fileSize")
  case True
  have "unat fileSize < 2 ^ 63" using assms by (rule sint_pos_unat_bound)
  with True have "unat b + unat sz < 2 ^ LENGTH(64)" by simp
  with unat_add_lem [of b sz] have "unat (b + sz) = unat b + unat sz" by blast
  with True show ?thesis by (simp add: isRangeInsideFile_nat)
next
  case False
  then show ?thesis unfolding isRangeInsideFile_nat by linarith
qed

subsection \<open>The claims about LoadSModelFile\<close>

text \<open>
  Claim C5. A file is rejected when its magic differs from the format constant, or its
  major version differs from the loader's, or its minor version is below the loader's, or
  it declares a nonzero file size other than the actual one. A newer minor version passes
  the compatibility test, and the loader's verdict on such a file is the verdict it gives
  when the minor version is the expected one.
\<close>

theorem header_gate:
  "(magic h \<noteq> SMODEL_MAGIC \<or> versionMajor h \<noteq> SMODEL_VERSION_MAJOR
      \<or> versionMinor h < SMODEL_VERSION_MINOR
      \<or> (fileSizeBytes h \<noteq> 0 \<and> fileSizeBytes h \<noteq> sz)
    \<longrightarrow> (\<exists>v e. LoadSModelFile a path (Opens sz ok (img\<lparr>headerAt0 := h\<rparr>)) v0 e0
                 = Returned False v e))
   \<and> (magic h = SMODEL_MAGIC \<and> versionMajor h = SMODEL_VERSION_MAJOR
      \<and> versionMinor h > SMODEL_VERSION_MINOR
    \<longrightarrow> isHeaderCompatible h
        \<and> accepted (LoadSModelFile a path (Opens sz ok (img\<lparr>headerAt0 := h\<rparr>)) v0 e0)
          = accepted (LoadSModelFile a path
              (Opens sz ok (img\<lparr>headerAt0 := h\<lparr>versionMinor := SMODEL_VERSION_MINOR\<rparr>\<rparr>)) v0 e0))"
proof (intro conjI impI)
  assume bad: "magic h \<noteq> SMODEL_MAGIC \<or> versionMajor h \<noteq> SMODEL_VERSION_MAJOR
      \<or> versionMinor h < SMODEL_VERSION_MINOR
      \<or> (fileSizeBytes h \<noteq> 0 \<and> fileSizeBytes h \<noteq> sz)"
  show "\<exists>v e. LoadSModelFile a path (Opens sz ok (img\<lparr>headerAt0 := h\<rparr>)) v0 e0 = Returned False v e"
  proof (rule ccontr)
    assume "\<not> ?thesis"
    then have "\<And>v e. LoadSModelFile a path (Opens sz ok (img\<lparr>headerAt0 := h\<rparr>)) v0 e0
                 \<noteq> Returned False v e"
      by blast
    from rejected_cases [OF this] bad show False by (auto simp: isHeaderCompatible_iff)
  qed
next
  assume "magic h = SMODEL_MAGIC \<and> versionMajor h = SMODEL_VERSION_MAJOR
      \<and> versionMinor h > SMODEL_VERSION_MINOR"
  then show "isHeaderCompatible h" by (auto simp: isHeaderCompatible_iff)
next
  assume "magic h = SMODEL_MAGIC \<and> versionMajor h = SMODEL_VERSION_MAJOR
      \<and> versionMinor h > SMODEL_VERSION_MINOR"
  then have 1: "\<not> versionMinor h < SMODEL_VERSION_MINOR" by auto
  have 2: "\<not> SMODEL_VERSION_MINOR < SMODEL_VERSION_MINOR" by simp
  have "h\<lparr>versionMinor := versionMinor h\<rparr> = h" by simp
  with accepted_minor [OF 1 2, where a = a and path = path and sz = sz and ok = ok
                         and img = img and h = h and ?v0.0 = v0 and ?e0.0 = e0]
  show "accepted (LoadSModelFile a path (Opens sz ok (img\<lparr>headerAt0 := h\<rparr>)) v0 e0)
          = accepted (LoadSModelFile a path
              (Opens sz ok (img\<lparr>headerAt0 := h\<lparr>versionMinor := SMODEL_VERSION_MINOR\<rparr>\<rparr>)) v0 e0)"
    by simp
qed

text \<open>The witness: a header-only file with one byte of the magic changed is rejected;
  the same file with the right magic and minor version 7 is accepted.\<close>

theorem header_gate_witness:
  "magic badMagicHeader \<noteq> SMODEL_MAGIC
   \<and> \<not> accepted (LoadSModelFile example_abi ''m.smodel''
                  (Opens 136 True (imageWithHeader badMagicHeader)) emptyView [])
   \<and> versionMinor (emptyModelHeader\<lparr>versionMinor := 7\<rparr>) > SMODEL_VERSION_MINOR
   \<and> accepted (LoadSModelFile example_abi ''m.smodel''
                  (Opens 136 True (imageWithHeader (emptyModelHeader\<lparr>versionMinor := 7\<rparr>)))
                  emptyView [])"
proof -
  let ?new = "emptyModelHeader\<lparr>versionMinor := 7\<rparr>"
  have m: "magic badMagicHeader \<noteq> SMODEL_MAGIC"
    by (simp add: badMagicHeader_def SMODEL_MAGIC_def)
  have i1: "(imageWithHeader badMagicHeader)\<lparr>headerAt0 := badMagicHeader\<rparr>
              = imageWithHeader badMagicHeader"
    by (simp add: imageWithHeader_def)
  from header_gate [of badMagicHeader 136 example_abi "''m.smodel''" True
                      "imageWithHeader badMagicHeader" emptyView "[]"] m
  have "\<exists>v e. LoadSModelFile example_abi ''m.smodel''
                 (Opens 136 True (imageWithHeader badMagicHeader)) emptyView []
               = Returned False v e"
    unfolding i1 by blast
  then have r: "\<not> accepted (LoadSModelFile example_abi ''m.smodel''
                  (Opens 136 True (imageWithHeader badMagicHeader)) emptyView [])"
    by (auto simp: accepted_def)
  have n: "magic ?new = SMODEL_MAGIC \<and> versionMajor ?new = SMODEL_VERSION_MAJOR
           \<and> versionMinor ?new > SMODEL_VERSION_MINOR"
    by (simp add: emptyModelHeader_def SMODEL_VERSION_MINOR_def)
  have i2: "(imageWithHeader ?new)\<lparr>headerAt0 := ?new\<rparr> = imageWithHeader ?new"
           "(imageWithHeader ?new)\<lparr>headerAt0 := ?new\<lparr>versionMinor := SMODEL_VERSION_MINOR\<rparr>\<rparr>
              = imageWithHeader emptyModelHeader"
    by (simp_all add: imageWithHeader_def emptyModelHeader_def)
  have sz: "sizeofHeader example_abi = 136" by (simp add: example_abi_def)
  have "LoadSModelFile example_abi ''m.smodel''
          (Opens (sizeofHeader example_abi) True (imageWithHeader emptyModelHeader)) emptyView []
        = Returned True (buildViews (headerAt0 (imageWithHeader emptyModelHeader))
            (headerView (sizeofHeader example_abi) (imageWithHeader emptyModelHeader))) []"
    by (rule Load_header_only)
       (simp_all add: imageWithHeader_def isHeaderCompatible_def emptyModelHeader_def
          zeroHeader_def example_abi_def)
  then have e: "accepted (LoadSModelFile example_abi ''m.smodel''
                  (Opens 136 True (imageWithHeader emptyModelHeader)) emptyView [])"
    by (simp add: accepted_def sz)
  from header_gate [of ?new 136 example_abi "''m.smodel''" True
                      "imageWithHeader ?new" emptyView "[]"] n
  have "accepted (LoadSModelFile example_abi ''m.smodel''
                  (Opens 136 True (imageWithHeader ?new)) emptyView [])
      = accepted (LoadSModelFile example_abi ''m.smodel''
                  (Opens 136 True (imageWithHeader emptyModelHeader)) emptyView [])"
    unfolding i2 by blast
  with e have a: "accepted (LoadSModelFile example_abi ''m.smodel''
                  (Opens 136 True (imageWithHeader ?new)) emptyView [])"
    by simp
  from m r n a show ?thesis by blast
qed

text \<open>
  Claim C10. A file that consists of a compatible header only, with every record count
  zero, the table, string-table and blob offsets and sizes zero and a declared size of zero
  or of the header size, is accepted: the call returns true with an empty error text, and
  the view reports no meshes, primitives, materials or textures and has no node pointers.
\<close>

theorem header_only_file_accepted:
  assumes "isHeaderCompatible (headerAt0 img)"
    and "meshCount (headerAt0 img) = 0" "primitiveCount (headerAt0 img) = 0"
        "materialCount (headerAt0 img) = 0" "textureCount (headerAt0 img) = 0"
        "nodeCount (headerAt0 img) = 0" "nodePrimitiveIndexCount (headerAt0 img) = 0"
    and "meshesOffset (headerAt0 img) = 0" "primitivesOffset (headerAt0 img) = 0"
        "materialsOffset (headerAt0 img) = 0" "texturesOffset (headerAt0 img) = 0"
    and "stringTableOffset (headerAt0 img) = 0" "stringTableSize (headerAt0 img) = 0"
        "blobOffset (headerAt0 img) = 0" "blobSize (headerAt0 img) = 0"
    and "fileSizeBytes (headerAt0 img) = 0 \<or> fileSizeBytes (headerAt0 img) = sizeofHeader a"
    and "0 < sint (sizeofHeader a)"
  shows "\<exists>v. LoadSModelFile a path (Opens (sizeofHeader a) True img) v0 e0 = Returned True v []
           \<and> view_meshCount v = 0 \<and> view_primitiveCount v = 0 \<and> view_materialCount v = 0
           \<and> view_textureCount v = 0 \<and> nodes v = None \<and> nodePrimitiveIndices v = None"
  using Load_header_only [OF assms] assms(2-7)
  by (simp add: buildViews_def headerView_def emptyView_def view_meshCount_def
        view_primitiveCount_def view_materialCount_def view_textureCount_def)

theorem header_only_file_accepted_witness:
  "isHeaderCompatible emptyModelHeader \<and> 0 < sint (sizeofHeader example_abi)
   \<and> fileSizeBytes emptyModelHeader = 0
   \<and> accepted (LoadSModelFile example_abi ''empty.smodel''
                 (Opens 136 True (imageWithHeader emptyModelHeader)) emptyView [])"
proof -
  have a: "isHeaderCompatible (headerAt0 (imageWithHeader emptyModelHeader))"
    by (simp add: imageWithHeader_def compat_examples)
  have b: "0 < sint (sizeofHeader example_abi)" by (simp add: example_abi_def)
  have c: "sizeofHeader example_abi = 136" by (simp add: example_abi_def)
  have d: "fileSizeBytes emptyModelHeader = 0" by (simp add: emptyModelHeader_def zeroHeader_def)
  from header_only_file_accepted [of "imageWithHeader emptyModelHeader" example_abi
         "''empty.smodel''" emptyView "[]", OF a _ _ _ _ _ _ _ _ _ _ _ _ _ _ _ b]
  have "accepted (LoadSModelFile example_abi ''empty.smodel''
          (Opens (sizeofHeader example_abi) True (imageWithHeader emptyModelHeader)) emptyView [])"
    by (auto simp add: imageWithHeader_def emptyModelHeader_def zeroHeader_def accepted_def)
  with a b c d show ?thesis by (simp add: imageWithHeader_def)
qed

text \<open>The 4096-byte file whose only mesh record is all zero is rejected in the loop over
  meshes, after the table pointers were stored in the view.\<close>

lemma zeroMesh_rejected:
  "LoadSModelFile example_abi ''m.smodel'' (Opens 4096 True (imageWithHeader zeroMeshHeader)) v0 e0
   = Returned False (buildViews zeroMeshHeader (headerView 4096 (imageWithHeader zeroMeshHeader)))
       ''Mesh has invalid vertexCount/vertexStride (meshIndex=0)''"
proof -
  let ?img = "imageWithHeader zeroMeshHeader"
  have h: "headerAt0 ?img = zeroMeshHeader" by (simp add: imageWithHeader_def)
  have fs: "fileSizeBytes zeroMeshHeader = 4096" by (simp add: zeroMeshHeader_def)
  have v: "validateSectionBounds example_abi zeroMeshHeader 4096 = Pass"
    by (simp add: validateSectionBounds_def tableRangeValid_def isRangeInsideFile_def
          example_abi_def zeroMeshHeader_def emptyModelHeader_def zeroHeader_def)
  have c: "crossValidate example_abi (buildViews zeroMeshHeader (headerView 4096 ?img)) ?img 4096
             zeroMeshHeader
           = Reject ''Mesh has invalid vertexCount/vertexStride (meshIndex=0)''"
    by (simp add: crossValidate_def checkMesh_def example_abi_def imageWithHeader_def
          zeroMesh_def zeroMeshHeader_def emptyModelHeader_def zeroHeader_def dec.simps
          digitChar_def)
  show ?thesis
    using Load_example_4096 [OF h compat_examples(1) fs, of "''m.smodel''" v0 e0]
    by (simp add: v c)
qed

text \<open>
  Claim C4, as the code has it. The view and the error text passed in do not matter: both
  are reset at the very start. Every return of false comes with a non-empty error text.
  When the file cannot be opened or is empty the view is left empty; on every later
  failure the view holds the file bytes the call stored in it (and with them whatever
  pointers the call had set by then).
\<close>

theorem failed_load_reports_error:
  "LoadSModelFile a path dfile v0 e0 = LoadSModelFile a path dfile emptyView []
   \<and> (\<forall>v e. LoadSModelFile a path dfile v0 e0 = Returned False v e \<longrightarrow>
         e \<noteq> [] \<and>
         (case dfile of
            OpenFails \<Rightarrow> v = emptyView
          | Opens sz ok img \<Rightarrow>
              if sint sz \<le> 0 then v = emptyView else fileBytes v = Some (sz, img)))"
proof -
  have 1: "LoadSModelFile a path dfile v0 e0 = LoadSModelFile a path dfile emptyView []"
    by (simp add: LoadSModelFile_def)
  have 2: "\<forall>v e. LoadSModelFile a path dfile v0 e0 = Returned False v e \<longrightarrow>
        e \<noteq> [] \<and>
        (case dfile of OpenFails \<Rightarrow> v = emptyView
         | Opens sz ok img \<Rightarrow>
             if sint sz \<le> 0 then v = emptyView else fileBytes v = Some (sz, img))"
    using Load_failure_view [of a path dfile v0 e0] by blast
  from 1 2 show ?thesis by (rule conjI)
qed

text \<open>The witness: the rejected zero-mesh file, loaded into a view that still holds the
  pointers of an earlier load.\<close>

theorem failed_load_reports_error_witness:
  "LoadSModelFile example_abi ''m.smodel'' (Opens 4096 True (imageWithHeader zeroMeshHeader))
      (headerView 136 (imageWithHeader emptyModelHeader)) ''stale''
    = Returned False (buildViews zeroMeshHeader (headerView 4096 (imageWithHeader zeroMeshHeader)))
        ''Mesh has invalid vertexCount/vertexStride (meshIndex=0)''
   \<and> fileBytes (buildViews zeroMeshHeader (headerView 4096 (imageWithHeader zeroMeshHeader)))
       = Some (4096, imageWithHeader zeroMeshHeader)"
proof -
  let ?f = "Opens 4096 True (imageWithHeader zeroMeshHeader)"
  let ?v = "buildViews zeroMeshHeader (headerView 4096 (imageWithHeader zeroMeshHeader))"
  let ?e = "''Mesh has invalid vertexCount/vertexStride (meshIndex=0)''"
  note t = failed_load_reports_error [of example_abi "''m.smodel''" ?f
             "headerView 136 (imageWithHeader emptyModelHeader)" "''stale''"]
  have r: "LoadSModelFile example_abi ''m.smodel'' ?f
             (headerView 136 (imageWithHeader emptyModelHeader)) ''stale'' = Returned False ?v ?e"
    using t zeroMesh_rejected [of emptyView "[]"] by simp
  from t r have "?e \<noteq> [] \<and> (case ?f of OpenFails \<Rightarrow> ?v = emptyView
      | Opens sz ok img \<Rightarrow> if sint sz \<le> 0 then ?v = emptyView else fileBytes ?v = Some (sz, img))"
    by blast
  then have "fileBytes ?v = Some (4096, imageWithHeader zeroMeshHeader)" by simp
  with r show ?thesis by blast
qed

text \<open>
  The claim as stated fails: the same file makes the call return false while the view
  handed back is not the empty view. It holds the header pointer and every table pointer,
  as after a successful load.
\<close>

theorem failed_load_leaves_view_populated_counterexample:
  "LoadSModelFile example_abi ''m.smodel'' (Opens 4096 True (imageWithHeader zeroMeshHeader))
      emptyView []
    = Returned False (buildViews zeroMeshHeader (headerView 4096 (imageWithHeader zeroMeshHeader)))
        ''Mesh has invalid vertexCount/vertexStride (meshIndex=0)''
   \<and> buildViews zeroMeshHeader (headerView 4096 (imageWithHeader zeroMeshHeader)) \<noteq> emptyView
   \<and> header (buildViews zeroMeshHeader (headerView 4096 (imageWithHeader zeroMeshHeader)))
       = Some zeroMeshHeader
   \<and> meshes (buildViews zeroMeshHeader (headerView 4096 (imageWithHeader zeroMeshHeader)))
       = Some 2048"
proof -
  let ?v = "buildViews zeroMeshHeader (headerView 4096 (imageWithHeader zeroMeshHeader))"
  have h: "header ?v = Some zeroMeshHeader"
    by (simp add: buildViews_def headerView_def imageWithHeader_def)
  have m: "meshes ?v = Some 2048"
    by (simp add: buildViews_def zeroMeshHeader_def)
  have "meshes emptyView = None" by (simp add: emptyView_def)
  with m have n: "?v \<noteq> emptyView" by auto
  from zeroMesh_rejected [of emptyView "[]"] h m n show ?thesis by blast
qed

text \<open>
  Claim C3 fails on the code. The checks made through \<^verbatim>\<open>isRangeInsideFile\<close> do not
  wrap (lemma \<open>isRangeInsideFile_exact\<close>), but the blob slices of a mesh and of a texture
  are tested with a bare \<^verbatim>\<open>offset + size > blobSize\<close>. In the file below the blob is
  empty and the mesh claims one byte of vertex data at offset \<open>2\<^sup>6\<^sup>4 - 1\<close>: the sum wraps to
  0, the test passes, and the call returns true although the slice is not inside the blob.
\<close>

theorem mesh_slice_check_wraps:
  "LoadSModelFile example_abi ''m.smodel'' (Opens 4096 True overflowMeshImage) emptyView []
    = Returned True (buildViews zeroMeshHeader (headerView 4096 overflowMeshImage)) []
   \<and> meshAt overflowMeshImage
        (unat (meshesOffset zeroMeshHeader) + 0 * unat (sizeofMeshRecord example_abi))
       = overflowMesh
   \<and> vertexDataOffset overflowMesh + vertexDataSize overflowMesh = 0
   \<and> unat (vertexDataOffset overflowMesh) + unat (vertexDataSize overflowMesh)
       > unat (blobSize zeroMeshHeader)"
proof -
  let ?img = "overflowMeshImage"
  have h: "headerAt0 ?img = zeroMeshHeader"
    by (simp add: overflowMeshImage_def imageWithHeader_def)
  have fs: "fileSizeBytes zeroMeshHeader = 4096" by (simp add: zeroMeshHeader_def)
  have v: "validateSectionBounds example_abi zeroMeshHeader 4096 = Pass"
    by (simp add: validateSectionBounds_def tableRangeValid_def isRangeInsideFile_def
          example_abi_def zeroMeshHeader_def emptyModelHeader_def zeroHeader_def)
  have c: "crossValidate example_abi (buildViews zeroMeshHeader (headerView 4096 ?img)) ?img 4096
             zeroMeshHeader = Pass"
    by (simp add: crossValidate_def checkMesh_def example_abi_def overflowMeshImage_def
          imageWithHeader_def overflowMesh_def zeroMeshHeader_def emptyModelHeader_def
          zeroHeader_def)
  have m: "meshAt overflowMeshImage
             (unat (meshesOffset zeroMeshHeader) + 0 * unat (sizeofMeshRecord example_abi))
           = overflowMesh"
    by (simp add: overflowMeshImage_def imageWithHeader_def zeroMeshHeader_def)
  have w: "vertexDataOffset overflowMesh + vertexDataSize overflowMesh = 0"
    by (simp add: overflowMesh_def)
  have r: "unat (vertexDataOffset overflowMesh) + unat (vertexDataSize overflowMesh)
             > unat (blobSize zeroMeshHeader)"
    by (simp add: overflowMesh_def zeroMeshHeader_def emptyModelHeader_def zeroHeader_def)
  have "LoadSModelFile example_abi ''m.smodel'' (Opens 4096 True ?img) emptyView []
      = Returned True (buildViews zeroMeshHeader (headerView 4096 overflowMeshImage)) []"
    using Load_example_4096 [OF h compat_examples(1) fs, of "''m.smodel''" emptyView "[]"]
    by (simp add: v c)
  with m w r show ?thesis by blast
qed

text \<open>
  Claim C1 fails on the code. The loader compares a node's child range with the number of
  nodes, never with the node-child-index table, and resolves no child index. The file
  below has one node that declares one child at position 0 of a child-index table with no
  entries; the call returns true.
\<close>

theorem loader_accepts_dangling_child_range:
  "LoadSModelFile example_abi ''m.smodel'' (Opens 4096 True danglingChildImage) emptyView []
    = Returned True (buildViews danglingChildHeader (headerView 4096 danglingChildImage)) []
   \<and> nodeAt danglingChildImage
        (unat (nodesOffset danglingChildHeader) + 0 * unat sizeofNodeRecord)
       = danglingChildNode
   \<and> nr_childCount danglingChildNode > 0
   \<and> \<not> unat (nr_firstChildIndex danglingChildNode) + unat (nr_childCount danglingChildNode)
         \<le> unat (nodeChildIndicesCount danglingChildHeader)"
proof -
  let ?img = "danglingChildImage"
  have h: "headerAt0 ?img = danglingChildHeader"
    by (simp add: danglingChildImage_def imageWithHeader_def)
  have fs: "fileSizeBytes danglingChildHeader = 4096" by (simp add: danglingChildHeader_def)
  have v: "validateSectionBounds example_abi danglingChildHeader 4096 = Pass"
    by (simp add: validateSectionBounds_def tableRangeValid_def isRangeInsideFile_def
          example_abi_def danglingChildHeader_def emptyModelHeader_def zeroHeader_def
          sizeofNodeRecord_def)
  have c: "crossValidate example_abi (buildViews danglingChildHeader (headerView 4096 ?img)) ?img
             4096 danglingChildHeader = Pass"
    by (simp add: crossValidate_def checkNode_def example_abi_def danglingChildImage_def
          imageWithHeader_def danglingChildNode_def zeroNode_def danglingChildHeader_def
          emptyModelHeader_def zeroHeader_def sizeofNodeRecord_def U32_MAX_def)
  have m: "nodeAt danglingChildImage
             (unat (nodesOffset danglingChildHeader) + 0 * unat sizeofNodeRecord)
           = danglingChildNode"
    by (simp add: danglingChildImage_def imageWithHeader_def danglingChildHeader_def)
  have r: "nr_childCount danglingChildNode > 0
      \<and> \<not> unat (nr_firstChildIndex danglingChildNode) + unat (nr_childCount danglingChildNode)
           \<le> unat (nodeChildIndicesCount danglingChildHeader)"
    by (simp add: danglingChildNode_def zeroNode_def danglingChildHeader_def
          emptyModelHeader_def zeroHeader_def)
  have "LoadSModelFile example_abi ''m.smodel'' (Opens 4096 True ?img) emptyView []
      = Returned True (buildViews danglingChildHeader (headerView 4096 ?img)) []"
    using Load_example_4096 [OF h compat_examples(2) fs, of "''m.smodel''" emptyView "[]"]
    by (simp add: v c)
  with m r show ?thesis by blast
qed

section \<open>Properties of the node graph traversal\<close>

lemma nodeTotal_le_length: "nodeTotal nds \<le> length nds"
  by (simp add: nodeTotal_def nodeCountOf_def unat_of_nat)

lemma nodeTotal_lt: "nodeTotal nds < 2 ^ 32"
proof -
  have "unat (nodeCountOf nds) < 2 ^ LENGTH(32)" by (rule unsigned_less)
  then show ?thesis by (simp add: nodeTotal_def)
qed

lemma idx_lt_iff: "\<not> idx \<ge> nodeCountOf nds \<longleftrightarrow> unat idx < nodeTotal nds"
  by (simp add: nodeTotal_def word_le_nat_alt not_le)

lemma keeps_visited_refl: "keeps_visited nds st st"
  by (simp add: keeps_visited_def)

lemma keeps_visited_trans: "keeps_visited nds a b \<Longrightarrow> keeps_visited nds b c \<Longrightarrow> keeps_visited nds a c"
  by (auto simp: keeps_visited_def)

lemma unvisited_mono: "keeps_visited nds st st' \<Longrightarrow> unvisited nds st' \<le> unvisited nds st"
  unfolding unvisited_def keeps_visited_def
  by (rule card_mono) auto

lemma dfs_skip:
  "idx \<ge> nodeCountOf nds \<or> visited st ! unat idx \<Longrightarrow> dfs (Suc d) mul nds nc idx parent st = Some st"
  by (auto simp: dfs.simps)

lemma dfs_leaf:
  "unat idx < nodeTotal nds \<Longrightarrow> \<not> visited st ! unat idx \<Longrightarrow> \<not> descends nds nc (unat idx)
   \<Longrightarrow> dfs (Suc d) mul nds nc idx parent st = Some (mark mul nds idx parent st)"
  by (auto simp: dfs.simps idx_lt_iff [symmetric] descends_def mark_def Let_def)

lemma dfs_node:
  "unat idx < nodeTotal nds \<Longrightarrow> \<not> visited st ! unat idx \<Longrightarrow> descends nds nc (unat idx)
   \<Longrightarrow> dfs (Suc d) mul nds nc idx parent st
       = dfs_children d mul nds nc idx [0 ..< unat (n_childCount (nds ! unat idx))] (mark mul nds idx parent st)"
  by (auto simp: dfs.simps idx_lt_iff [symmetric] descends_def mark_def Let_def)

lemma dfs_children_Cons:
  "dfs_children d mul nds nc idx (k # ks) st = Some st' \<longleftrightarrow>
     (\<exists>st1. dfs d mul nds nc (nc ! unat (n_firstChildIndex (nds ! unat idx) + of_nat k))
               (expectedGlobals st ! unat idx) st = Some st1
           \<and> dfs_children d mul nds nc idx ks st1 = Some st')"
  by (auto split: option.splits)

lemma dfs_zero: "dfs 0 mul nds nc idx parent st = None"
  by (simp add: dfs.simps)

lemma wf_state_mark: "wf_state nds st \<Longrightarrow> wf_state nds (mark mul nds idx parent st)"
  by (simp add: wf_state_def mark_def)

lemma keeps_visited_mark:
  "unat idx < nodeTotal nds \<Longrightarrow> \<not> visited st ! unat idx \<Longrightarrow> wf_state nds st
   \<Longrightarrow> keeps_visited nds st (mark mul nds idx parent st)"
  by (auto simp: keeps_visited_def wf_state_def mark_def nth_list_update)

lemma unvisited_mark:
  assumes "unat idx < nodeTotal nds" "\<not> visited st ! unat idx" "wf_state nds st"
  shows "unvisited nds (mark mul nds idx parent st) < unvisited nds st"
proof -
  have "{j. j < nodeTotal nds \<and> \<not> (visited st)[unat idx := True] ! j} \<subset> {j. j < nodeTotal nds \<and> \<not> visited st ! j}"
    using assms by (auto simp: wf_state_def nth_list_update)
  then show ?thesis unfolding unvisited_def mark_def by (simp add: psubset_card_mono)
qed

lemma dfs_keeps:
  "dfs d mul nds nc idx parent st = Some st' \<Longrightarrow> wf_state nds st \<Longrightarrow>
     wf_state nds st' \<and> keeps_visited nds st st'"
  "dfs_children d mul nds nc idx ks st = Some st' \<Longrightarrow> wf_state nds st \<Longrightarrow>
     wf_state nds st' \<and> keeps_visited nds st st'"
proof (induction d mul nds nc idx parent st and d mul nds nc idx ks st arbitrary: st' and st'
       rule: dfs_dfs_children.induct)
  case (1 mul nds nc idx parent st)
  then show ?case by (simp add: dfs_zero)
next
  case (2 depth mul nds nc idx parent st)
  note run = \<open>dfs (Suc depth) mul nds nc idx parent st = Some st'\<close>
  note wf = \<open>wf_state nds st\<close>
  consider (skip) "idx \<ge> nodeCountOf nds \<or> visited st ! unat idx"
    | (leaf) "unat idx < nodeTotal nds" "\<not> visited st ! unat idx" "\<not> descends nds nc (unat idx)"
    | (node) "unat idx < nodeTotal nds" "\<not> visited st ! unat idx" "descends nds nc (unat idx)"
    using idx_lt_iff [where idx = idx and nds = nds] by blast
  then show ?case
  proof cases
    case skip
    with run wf show ?thesis by (simp add: dfs_skip keeps_visited_refl)
  next
    case leaf
    with run have "st' = mark mul nds idx parent st" by (simp add: dfs_leaf)
    with leaf wf show ?thesis by (simp add: wf_state_mark keeps_visited_mark)
  next
    case node
    with run have c: "dfs_children depth mul nds nc idx [0 ..< unat (n_childCount (nds ! unat idx))]
                        (mark mul nds idx parent st) = Some st'"
      by (simp add: dfs_node)
    have nl: "\<not> nodeCountOf nds \<le> idx" using node(1) by (simp add: idx_lt_iff)
    have d1: "\<not> (n_childCount (nds ! unat idx) = 0 \<or> n_firstChildIndex (nds ! unat idx) = U32_MAX)"
      and d2: "\<not> length nc < unat (n_firstChildIndex (nds ! unat idx)) + unat (n_childCount (nds ! unat idx))"
      using node(3) by (auto simp: descends_def)
    note IH = "2.IH" [OF nl node(2) refl refl d1 d2, folded mark_def]
    have "wf_state nds st' \<and> keeps_visited nds (mark mul nds idx parent st) st'"
      using c wf_state_mark [OF wf] by (rule IH)
    with keeps_visited_mark [OF node(1,2) wf] show ?thesis by (auto intro: keeps_visited_trans)
  qed
next
  case (3 depth mul nds nc idx st)
  then show ?case by (simp add: keeps_visited_refl)
next
  case (4 depth mul nds nc idx k ks st)
  from \<open>dfs_children depth mul nds nc idx (k # ks) st = Some st'\<close> obtain st1 where
    s1: "dfs depth mul nds nc (nc ! unat (n_firstChildIndex (nds ! unat idx) + of_nat k))
             (expectedGlobals st ! unat idx) st = Some st1" 
    and s2: "dfs_children depth mul nds nc idx ks st1 = Some st'"
    unfolding dfs_children_Cons by blast
  from "4.IH"(1) [OF s1 \<open>wf_state nds st\<close>] have a: "wf_state nds st1" "keeps_visited nds st st1" by simp_all
  from "4.IH"(2) [OF s1 s2 a(1)] a(2) show ?case by (auto intro: keeps_visited_trans)
qed

lemma dfs_returns:
  "wf_state nds st \<Longrightarrow> unvisited nds st < d \<Longrightarrow> \<exists>st'. dfs d mul nds nc idx parent st = Some st'"
  "wf_state nds st \<Longrightarrow> unvisited nds st < d \<Longrightarrow> \<exists>st'. dfs_children d mul nds nc idx ks st = Some st'"
proof (induction d mul nds nc idx parent st and d mul nds nc idx ks st rule: dfs_dfs_children.induct)
  case (1 mul nds nc idx parent st)
  then show ?case by (simp add: dfs_zero)
next
  case (2 depth mul nds nc idx parent st)
  note wf = \<open>wf_state nds st\<close>
  consider (skip) "idx \<ge> nodeCountOf nds \<or> visited st ! unat idx"
    | (leaf) "unat idx < nodeTotal nds" "\<not> visited st ! unat idx" "\<not> descends nds nc (unat idx)"
    | (node) "unat idx < nodeTotal nds" "\<not> visited st ! unat idx" "descends nds nc (unat idx)"
    using idx_lt_iff [where idx = idx and nds = nds] by blast
  then show ?case
  proof cases
    case skip
    then show ?thesis by (simp add: dfs_skip)
  next
    case leaf
    then show ?thesis by (simp add: dfs_leaf)
  next
    case node
    have u: "unvisited nds (mark mul nds idx parent st) < depth"
      using unvisited_mark [OF node(1,2) wf, of mul parent] \<open>unvisited nds st < Suc depth\<close> by simp
    have nl: "\<not> nodeCountOf nds \<le> idx" using node(1) by (simp add: idx_lt_iff)
    have d1: "\<not> (n_childCount (nds ! unat idx) = 0 \<or> n_firstChildIndex (nds ! unat idx) = U32_MAX)"
      and d2: "\<not> length nc < unat (n_firstChildIndex (nds ! unat idx)) + unat (n_childCount (nds ! unat idx))"
      using node(3) by (auto simp: descends_def)
    note IH = "2.IH" [OF nl node(2) refl refl d1 d2, folded mark_def]
    have "\<exists>st'. dfs_children depth mul nds nc idx [0 ..< unat (n_childCount (nds ! unat idx))]
                        (mark mul nds idx parent st) = Some st'"
      using wf_state_mark [OF wf] u by (rule IH)
    with node show ?thesis by (simp add: dfs_node)
  qed
next
  case (3 depth mul nds nc idx st)
  then show ?case by simp
next
  case (4 depth mul nds nc idx k ks st)
  from "4.IH"(1) [OF 4(3) 4(4)] obtain st1 where
    s1: "dfs depth mul nds nc (nc ! unat (n_firstChildIndex (nds ! unat idx) + of_nat k))
             (expectedGlobals st ! unat idx) st = Some st1"
    by blast
  from dfs_keeps(1) [OF s1 4(3)] have k: "wf_state nds st1" "keeps_visited nds st st1" by simp_all
  have "unvisited nds st1 < depth" using unvisited_mono [OF k(2)] 4(4) by simp
  from "4.IH"(2) [OF s1 k(1) this] obtain st' where
    "dfs_children depth mul nds nc idx ks st1 = Some st'" by blast
  with s1 show ?case unfolding dfs_children_Cons by blast
qed

lemma boundsChecksOk_links: "boundsChecksOk nds np nc primCount \<Longrightarrow> links_ok nds nc"
  by (simp add: boundsChecksOk_def links_ok_def list_all_iff nodeTotal_def)

lemma unat_of_nat_nodeTotal: "i < nodeTotal nds \<Longrightarrow> unat (of_nat i :: u32) = i"
  using nodeTotal_lt [of nds] by (simp add: unat_of_nat)

lemma kids_parent:
  assumes "links_ok nds nc" "i < nodeTotal nds" "c \<in> set (kids nds nc i)"
  shows "unat c < nodeTotal nds \<and> n_parentIndex (nds ! unat c) = of_nat i"
proof -
  from assms(1,2) have ok: "childLinksOk nds nc i" by (simp add: links_ok_def)
  let ?n = "nds ! i"
  from assms(3) have ne: "\<not> (n_childCount ?n = 0 \<or> n_firstChildIndex ?n = U32_MAX
            \<or> unat (n_firstChildIndex ?n) + unat (n_childCount ?n) > length nc)"
    by (auto simp: kids_def Let_def split: if_splits)
  with assms(3) obtain k where k: "k < unat (n_childCount ?n)" "c = nc ! unat (n_firstChildIndex ?n + of_nat k)"
    by (auto simp: kids_def Let_def)
  from ne have "n_childCount ?n > 0" by (simp add: word_greater_zero_iff)
  with ok ne k(1) have "\<not> nc ! unat (n_firstChildIndex ?n + of_nat k) \<ge> nodeCountOf nds
     \<and> n_parentIndex (nds ! unat (nc ! unat (n_firstChildIndex ?n + of_nat k))) = of_nat i"
    by (auto simp: childLinksOk_def Let_def list_all_iff split: if_splits)
  with k(2) show ?thesis by (simp add: idx_lt_iff)
qed

lemma closes_refl: "closes nds nc st st"
  by (simp add: closes_def)

lemma closes_trans:
  "closes nds nc st a \<Longrightarrow> closes nds nc a b \<Longrightarrow> keeps_visited nds a b \<Longrightarrow> closes nds nc st b"
  unfolding closes_def keeps_visited_def by blast

lemma visited_mark:
  "wf_state nds st \<Longrightarrow> i < nodeTotal nds \<Longrightarrow> visited (mark mul nds idx parent st) ! i \<longleftrightarrow> i = unat idx \<or> visited st ! i"
  by (cases "i = unat idx") (simp_all add: mark_def wf_state_def)

lemma globals_mark:
  "wf_state nds st \<Longrightarrow> i < nodeTotal nds \<Longrightarrow>
     expectedGlobals (mark mul nds idx parent st) ! i
       = (if i = unat idx then mul parent (n_localMatrix (nds ! unat idx)) else expectedGlobals st ! i)"
  by (cases "i = unat idx") (simp_all add: mark_def wf_state_def)

lemma inv_globals_mark:
  assumes wf: "wf_state nds st" and inv: "inv_globals mul ident nds st"
    and lt: "unat idx < nodeTotal nds" and nv: "\<not> visited st ! unat idx"
    and call: "call_ok ident nds idx parent st"
  shows "inv_globals mul ident nds (mark mul nds idx parent st)"
  unfolding inv_globals_def
proof (intro allI impI)
  fix i assume i: "i < nodeTotal nds" and vi: "visited (mark mul nds idx parent st) ! i"
  let ?p = "n_parentIndex (nds ! i)"
  show "global_ok mul ident nds (mark mul nds idx parent st) i"
  proof (cases "i = unat idx")
    case True
    from call lt nv have c: "if ?p = U32_MAX then parent = ident
         else unat ?p < nodeTotal nds \<and> visited st ! unat ?p \<and> parent = expectedGlobals st ! unat ?p"
      by (simp add: call_ok_def True)
    show ?thesis
    proof (cases "?p = U32_MAX")
      case root: True
      with c wf i True show ?thesis by (simp add: global_ok_def globals_mark)
    next
      case False
      with c have p: "unat ?p < nodeTotal nds" "visited st ! unat ?p" "parent = expectedGlobals st ! unat ?p"
        by simp_all
      from p(2) nv have "unat ?p \<noteq> unat idx" by auto
      with False p wf i True show ?thesis
        by (simp add: global_ok_def globals_mark visited_mark)
    qed
  next
    case False
    with vi wf i have v: "visited st ! i" by (simp add: visited_mark)
    with inv i have g: "global_ok mul ident nds st i" by (simp add: inv_globals_def)
    show ?thesis
    proof (cases "?p = U32_MAX")
      case True
      with g wf i False show ?thesis by (simp add: global_ok_def globals_mark)
    next
      case np: False
      with g have p: "unat ?p < nodeTotal nds" "visited st ! unat ?p"
         "expectedGlobals st ! i = mul (expectedGlobals st ! unat ?p) (n_localMatrix (nds ! i))"
        by (simp_all add: global_ok_def)
      from p(2) nv have "unat ?p \<noteq> unat idx" by auto
      with np p wf i False show ?thesis
        by (simp add: global_ok_def globals_mark visited_mark)
    qed
  qed
qed

lemma idx_not_max: "unat (idx :: u32) < nodeTotal nds \<Longrightarrow> idx \<noteq> U32_MAX"
proof
  assume a: "unat idx < nodeTotal nds" and b: "idx = U32_MAX"
  have "unat U32_MAX = 2 ^ 32 - 1" by (simp add: U32_MAX_def)
  with a b nodeTotal_lt [of nds] show False by simp
qed

lemma kids_descends:
  "descends nds nc i \<Longrightarrow>
     kids nds nc i = map (\<lambda>k. nc ! unat (n_firstChildIndex (nds ! i) + of_nat k)) [0 ..< unat (n_childCount (nds ! i))]"
  by (simp add: kids_def descends_def Let_def)

lemma kids_leaf: "\<not> descends nds nc i \<Longrightarrow> kids nds nc i = []"
  by (auto simp: kids_def descends_def Let_def)

lemma call_ok_child:
  assumes "links_ok nds nc" "unat (idx :: u32) < nodeTotal nds" "visited st ! unat idx"
    and "c \<in> set (kids nds nc (unat idx))"
  shows "call_ok ident nds c (expectedGlobals st ! unat idx) st"
proof -
  from kids_parent [OF assms(1,2,4)] have "n_parentIndex (nds ! unat c) = idx" by simp
  with assms(2,3) idx_not_max [OF assms(2)] show ?thesis by (simp add: call_ok_def)
qed

lemma closes_mark_step:
  assumes wf: "wf_state nds st" and lt: "unat idx < nodeTotal nds"
    and rest: "closes nds nc (mark mul nds idx parent st) st'"
    and mine: "\<forall>c \<in> set (kids nds nc (unat idx)). unat c < nodeTotal nds \<longrightarrow> visited st' ! unat c"
  shows "closes nds nc st st'"
  unfolding closes_def
proof (intro allI impI ballI)
  fix i c
  assume i: "i < nodeTotal nds" and new: "visited st' ! i \<and> \<not> visited st ! i"
    and c: "c \<in> set (kids nds nc i)" "unat c < nodeTotal nds"
  show "visited st' ! unat c"
  proof (cases "i = unat idx")
    case True
    with mine c show ?thesis by simp
  next
    case False
    with new wf i have "\<not> visited (mark mul nds idx parent st) ! i" by (simp add: visited_mark)
    with rest i new c show ?thesis unfolding closes_def by blast
  qed
qed

lemma dfs_invariants:
  "dfs d mul nds nc idx parent st = Some st' \<Longrightarrow> wf_state nds st \<Longrightarrow> links_ok nds nc \<Longrightarrow>
     inv_globals mul ident nds st \<Longrightarrow> call_ok ident nds idx parent st \<Longrightarrow>
     inv_globals mul ident nds st' \<and> closes nds nc st st'
       \<and> (unat idx < nodeTotal nds \<longrightarrow> visited st' ! unat idx)"
  "dfs_children d mul nds nc idx ks st = Some st' \<Longrightarrow> wf_state nds st \<Longrightarrow> links_ok nds nc \<Longrightarrow>
     inv_globals mul ident nds st \<Longrightarrow> unat idx < nodeTotal nds \<Longrightarrow> visited st ! unat idx \<Longrightarrow>
     descends nds nc (unat idx) \<Longrightarrow> set ks \<subseteq> {..< unat (n_childCount (nds ! unat idx))} \<Longrightarrow>
     inv_globals mul ident nds st' \<and> closes nds nc st st'
       \<and> (\<forall>k \<in> set ks. unat (nc ! unat (n_firstChildIndex (nds ! unat idx) + of_nat k)) < nodeTotal nds
             \<longrightarrow> visited st' ! unat (nc ! unat (n_firstChildIndex (nds ! unat idx) + of_nat k)))"
proof (induction d mul nds nc idx parent st and d mul nds nc idx ks st arbitrary: st' and st'
       rule: dfs_dfs_children.induct)
  case (1 mul nds nc idx parent st)
  then show ?case by (simp add: dfs_zero)
next
  case (2 depth mul nds nc idx parent st)
  note run = \<open>dfs (Suc depth) mul nds nc idx parent st = Some st'\<close>
  note wf = \<open>wf_state nds st\<close> and links = \<open>links_ok nds nc\<close>
    and inv = \<open>inv_globals mul ident nds st\<close> and call = \<open>call_ok ident nds idx parent st\<close>
  let ?st1 = "mark mul nds idx parent st"
  consider (skip) "idx \<ge> nodeCountOf nds \<or> visited st ! unat idx"
    | (leaf) "unat idx < nodeTotal nds" "\<not> visited st ! unat idx" "\<not> descends nds nc (unat idx)"
    | (node) "unat idx < nodeTotal nds" "\<not> visited st ! unat idx" "descends nds nc (unat idx)"
    using idx_lt_iff [where idx = idx and nds = nds] by blast
  then show ?case
  proof cases
    case skip
    with run have "st' = st" by (simp add: dfs_skip)
    with skip inv show ?thesis by (auto simp: closes_refl idx_lt_iff [symmetric])
  next
    case leaf
    with run have st': "st' = ?st1" by (simp add: dfs_leaf)
    have a: "inv_globals mul ident nds ?st1" using wf inv leaf(1,2) call by (rule inv_globals_mark)
    have b: "closes nds nc st ?st1"
      using wf leaf(1) closes_refl by (rule closes_mark_step) (simp add: kids_leaf [OF leaf(3)])
    have c: "visited ?st1 ! unat idx" using wf leaf(1) by (simp add: visited_mark)
    from a b c show ?thesis unfolding st' by simp
  next
    case node
    with run have c: "dfs_children depth mul nds nc idx [0 ..< unat (n_childCount (nds ! unat idx))]
                        ?st1 = Some st'"
      by (simp add: dfs_node)
    have nl: "\<not> nodeCountOf nds \<le> idx" using node(1) by (simp add: idx_lt_iff)
    have d1: "\<not> (n_childCount (nds ! unat idx) = 0 \<or> n_firstChildIndex (nds ! unat idx) = U32_MAX)"
      and d2: "\<not> length nc < unat (n_firstChildIndex (nds ! unat idx)) + unat (n_childCount (nds ! unat idx))"
      using node(3) by (auto simp: descends_def)
    note IH = "2.IH" [OF nl node(2) refl refl d1 d2, folded mark_def]
    have wf1: "wf_state nds ?st1" using wf by (rule wf_state_mark)
    have inv1: "inv_globals mul ident nds ?st1" using wf inv node(1,2) call by (rule inv_globals_mark)
    have v1: "visited ?st1 ! unat idx" using wf node(1) by (simp add: visited_mark)
    have sub: "set [0 ..< unat (n_childCount (nds ! unat idx))] \<subseteq> {..< unat (n_childCount (nds ! unat idx))}"
      by auto
    from IH [OF c wf1 links inv1 node(1) v1 node(3) sub]
    have r: "inv_globals mul ident nds st'" "closes nds nc ?st1 st'"
      "\<forall>k \<in> set [0 ..< unat (n_childCount (nds ! unat idx))].
          unat (nc ! unat (n_firstChildIndex (nds ! unat idx) + of_nat k)) < nodeTotal nds
             \<longrightarrow> visited st' ! unat (nc ! unat (n_firstChildIndex (nds ! unat idx) + of_nat k))"
      by blast+
    from r(3) have mine: "\<forall>c \<in> set (kids nds nc (unat idx)). unat c < nodeTotal nds \<longrightarrow> visited st' ! unat c"
      by (simp add: kids_descends [OF node(3)])
    have cl: "closes nds nc st st'" using wf node(1) r(2) mine by (rule closes_mark_step)
    from dfs_keeps(2) [OF c wf1] have "keeps_visited nds ?st1 st'" by simp
    with v1 node(1) have "visited st' ! unat idx" by (simp add: keeps_visited_def)
    with r(1) cl show ?thesis by simp
  qed
next
  case (3 depth mul nds nc idx st)
  then show ?case by (simp add: closes_refl)
next
  case (4 depth mul nds nc idx k ks st)
  let ?c = "nc ! unat (n_firstChildIndex (nds ! unat idx) + of_nat k)"
  note wf = \<open>wf_state nds st\<close> and links = \<open>links_ok nds nc\<close>
    and inv = \<open>inv_globals mul ident nds st\<close> and lt = \<open>unat idx < nodeTotal nds\<close>
    and vis = \<open>visited st ! unat idx\<close> and desc = \<open>descends nds nc (unat idx)\<close>
    and sub = \<open>set (k # ks) \<subseteq> {..<unat (n_childCount (nds ! unat idx))}\<close>
  from \<open>dfs_children depth mul nds nc idx (k # ks) st = Some st'\<close> obtain st1 where
    s1: "dfs depth mul nds nc ?c (expectedGlobals st ! unat idx) st = Some st1"
    and s2: "dfs_children depth mul nds nc idx ks st1 = Some st'"
    unfolding dfs_children_Cons by blast
  from sub have "?c \<in> set (kids nds nc (unat idx))"
    by (simp add: kids_descends [OF desc])
  with links lt vis have call: "call_ok ident nds ?c (expectedGlobals st ! unat idx) st"
    by (rule call_ok_child)
  from "4.IH"(1) [OF s1 wf links inv call]
  have a: "inv_globals mul ident nds st1" "closes nds nc st st1" "unat ?c < nodeTotal nds \<longrightarrow> visited st1 ! unat ?c"
    by simp_all
  from dfs_keeps(1) [OF s1 wf] have k1: "wf_state nds st1" "keeps_visited nds st st1" by simp_all
  from k1(2) lt vis have vis1: "visited st1 ! unat idx" by (simp add: keeps_visited_def)
  from sub have sub': "set ks \<subseteq> {..<unat (n_childCount (nds ! unat idx))}" by simp
  from "4.IH"(2) [OF s1 s2 k1(1) links a(1) lt vis1 desc sub']
  have b: "inv_globals mul ident nds st'" "closes nds nc st1 st'"
    "\<forall>k \<in> set ks. unat (nc ! unat (n_firstChildIndex (nds ! unat idx) + of_nat k)) < nodeTotal nds
             \<longrightarrow> visited st' ! unat (nc ! unat (n_firstChildIndex (nds ! unat idx) + of_nat k))"
    by blast+
  from dfs_keeps(2) [OF s2 k1(1)] have k2: "keeps_visited nds st1 st'" by simp
  have cl: "closes nds nc st st'" using a(2) b(2) k2 by (rule closes_trans)
  from a(3) k2 have "unat ?c < nodeTotal nds \<longrightarrow> visited st' ! unat ?c" by (auto simp: keeps_visited_def)
  with b(1) cl b(3) show ?case by simp
qed

lemma unvisited_le: "unvisited nds st \<le> nodeTotal nds"
proof -
  have "card {i. i < nodeTotal nds \<and> \<not> visited st ! i} \<le> card {..< nodeTotal nds}"
    by (rule card_mono) auto
  then show ?thesis by (simp add: unvisited_def)
qed

lemma wf_initialState: "wf_state nds (initialState ident nds)"
  by (simp add: wf_state_def initialState_def nodeTotal_def)

lemma initialState_unvisited: "i < nodeTotal nds \<Longrightarrow> \<not> visited (initialState ident nds) ! i"
  by (simp add: initialState_def nodeTotal_def)

lemma dfs_roots_returns:
  "wf_state nds st \<Longrightarrow> \<exists>st'. dfs_roots (Suc (nodeTotal nds)) mul ident nds nc is st = Some st'"
proof (induction "is" arbitrary: st)
  case Nil
  then show ?case by simp
next
  case (Cons i "is")
  show ?case
  proof (cases "n_parentIndex (nds ! i) = U32_MAX")
    case True
    have "unvisited nds st < Suc (nodeTotal nds)" using unvisited_le [of nds st] by simp
    from dfs_returns(1) [OF Cons.prems this] obtain st1 where
      s1: "dfs (Suc (nodeTotal nds)) mul nds nc (of_nat i) ident st = Some st1" by blast
    from dfs_keeps(1) [OF s1 Cons.prems] have "wf_state nds st1" by simp
    from Cons.IH [OF this] obtain st' where "dfs_roots (Suc (nodeTotal nds)) mul ident nds nc is st1 = Some st'"
      by blast
    with True s1 show ?thesis by simp
  next
    case False
    with Cons.IH [OF Cons.prems] show ?thesis by simp
  qed
qed

lemma computeExpectedGlobals_returns:
  "\<exists>st. computeExpectedGlobals mul ident nds nc = Some st"
  unfolding computeExpectedGlobals_def nodeTotal_def [symmetric]
  using wf_initialState by (rule dfs_roots_returns)

lemma dfs_roots_invariants:
  "dfs_roots d mul ident nds nc is st = Some st' \<Longrightarrow> wf_state nds st \<Longrightarrow> links_ok nds nc \<Longrightarrow>
     inv_globals mul ident nds st \<Longrightarrow> set is \<subseteq> {..< nodeTotal nds} \<Longrightarrow>
     wf_state nds st' \<and> keeps_visited nds st st' \<and> inv_globals mul ident nds st'
       \<and> closes nds nc st st'
       \<and> (\<forall>i \<in> set is. n_parentIndex (nds ! i) = U32_MAX \<longrightarrow> visited st' ! i)"
proof (induction "is" arbitrary: st)
  case Nil
  then show ?case by (simp add: keeps_visited_refl closes_refl)
next
  case (Cons i "is")
  note wf = \<open>wf_state nds st\<close> and links = \<open>links_ok nds nc\<close>
    and inv = \<open>inv_globals mul ident nds st\<close>
  from Cons.prems(5) have i: "i < nodeTotal nds" and sub: "set is \<subseteq> {..< nodeTotal nds}" by simp_all
  show ?case
  proof (cases "n_parentIndex (nds ! i) = U32_MAX")
    case True
    with Cons.prems(1) obtain st1 where
      s1: "dfs d mul nds nc (of_nat i) ident st = Some st1"
      and s2: "dfs_roots d mul ident nds nc is st1 = Some st'"
      by (auto split: option.splits)
    have ui: "unat (of_nat i :: u32) = i" using i by (rule unat_of_nat_nodeTotal)
    have call: "call_ok ident nds (of_nat i) ident st"
      using True by (simp add: call_ok_def ui)
    from dfs_invariants(1) [OF s1 wf links inv call] i
    have a: "inv_globals mul ident nds st1" "closes nds nc st st1" "visited st1 ! i"
      by (simp_all add: ui)
    from dfs_keeps(1) [OF s1 wf] have k1: "wf_state nds st1" "keeps_visited nds st st1" by simp_all
    from Cons.IH [OF s2 k1(1) links a(1) sub]
    have b: "wf_state nds st'" "keeps_visited nds st1 st'" "inv_globals mul ident nds st'"
       "closes nds nc st1 st'" "\<forall>i \<in> set is. n_parentIndex (nds ! i) = U32_MAX \<longrightarrow> visited st' ! i"
      by blast+
    have kv: "keeps_visited nds st st'" using k1(2) b(2) by (rule keeps_visited_trans)
    have cl: "closes nds nc st st'" using a(2) b(4) b(2) by (rule closes_trans)
    from a(3) b(2) i have "visited st' ! i" by (simp add: keeps_visited_def)
    with b(1) kv b(3) cl b(5) show ?thesis by simp
  next
    case False
    with Cons.prems(1) have s2: "dfs_roots d mul ident nds nc is st = Some st'" by simp
    from Cons.IH [OF s2 wf links inv sub] False show ?thesis by simp
  qed
qed

lemma reachable_lt: "reachable nds nc i \<Longrightarrow> i < nodeTotal nds"
  by (induction rule: reachable.induct) (simp_all add: nodeTotal_def)

lemma computeExpectedGlobals_sound:
  assumes run: "computeExpectedGlobals mul ident nds nc = Some st"
    and links: "links_ok nds nc"
  shows "wf_state nds st" "inv_globals mul ident nds st" "reachable nds nc i \<Longrightarrow> visited st ! i"
proof -
  let ?s0 = "initialState ident nds"
  have inv0: "inv_globals mul ident nds ?s0"
    by (simp add: inv_globals_def initialState_unvisited)
  have sub: "set [0 ..< nodeTotal nds] \<subseteq> {..< nodeTotal nds}" by auto
  from run have r: "dfs_roots (Suc (nodeTotal nds)) mul ident nds nc [0 ..< nodeTotal nds] ?s0 = Some st"
    by (simp add: computeExpectedGlobals_def nodeTotal_def)
  from dfs_roots_invariants [OF r wf_initialState links inv0 sub]
  have a: "wf_state nds st" "inv_globals mul ident nds st" "closes nds nc ?s0 st"
    "\<forall>i \<in> set [0 ..< nodeTotal nds]. n_parentIndex (nds ! i) = U32_MAX \<longrightarrow> visited st ! i"
    by blast+
  show "wf_state nds st" "inv_globals mul ident nds st" by fact+
  show "visited st ! i" if "reachable nds nc i"
    using that
  proof (induction rule: reachable.induct)
    case (root i)
    with a(4) show ?case by (simp add: nodeTotal_def)
  next
    case (child p c)
    from child(1) have p: "p < nodeTotal nds" by (rule reachable_lt)
    with a(3) child.IH initialState_unvisited [OF p, of ident] child(2,3)
    show ?case unfolding closes_def nodeTotal_def [symmetric] by blast
  qed
qed

lemma count_exampleTree: "unat (nodeCountOf (exampleTree lR l1 l2 l3)) = Suc (Suc (Suc (Suc 0)))"
  by (simp add: nodeCountOf_def exampleTree_def)

lemma count_cyclicPair: "unat (nodeCountOf (cyclicPair l0 l1)) = Suc (Suc 0)"
  by (simp add: nodeCountOf_def cyclicPair_def)

lemma small_word_facts:
  "\<not> (2::u32) \<le> 1" "\<not> (4::u32) \<le> 1" "(1::u32) \<noteq> 4294967295" "(0::u32) < 1"
  by (simp_all add: word_le_nat_alt word_less_nat_alt)

lemma upt_0_2: "[0..<2] = [0, Suc 0]"
  by (simp add: numeral_2_eq_2)

lemma cyclicPair_run:
  "computeExpectedGlobals mul ident (cyclicPair l0 l1) cyclicPairChildren
   = Some (initialState ident (cyclicPair l0 l1))"
  unfolding computeExpectedGlobals_def initialState_def count_cyclicPair
  by (simp add: cyclicPair_def mkNode_def U32_MAX_def)

lemma cyclicPair_dfs:
  "dfs (Suc (Suc (Suc 0))) mul (cyclicPair l0 l1) cyclicPairChildren 0 p (initialState ident (cyclicPair l0 l1))
   = Some \<lparr>visited = [True, True], expectedGlobals = [mul p l0, mul (mul p l0) l1]\<rparr>"
  unfolding initialState_def count_cyclicPair
  by (simp add: dfs.simps nodeCountOf_def cyclicPair_def cyclicPairChildren_def mkNode_def
        U32_MAX_def Let_def small_word_facts upt_0_2)

lemma exampleTree_run:
  "computeExpectedGlobals mul ident (exampleTree lR l1 l2 l3) exampleTreeChildren
   = Some \<lparr>visited = [True, True, True, True],
           expectedGlobals = [mul ident lR, mul (mul ident lR) l1, mul (mul ident lR) l2,
                              mul (mul (mul ident lR) l1) l3]\<rparr>"
  unfolding computeExpectedGlobals_def initialState_def count_exampleTree
  by (simp add: dfs.simps nodeCountOf_def exampleTree_def exampleTreeChildren_def mkNode_def
        U32_MAX_def Let_def small_word_facts upt_0_2)

lemma cyclicPair_verdict:
  "verifyNodeGraph mul ident near (cyclicPair l0 l1) [] cyclicPairChildren 0 = Some True"
  unfolding verifyNodeGraph_def cyclicPair_run globalsMatch_def boundsChecksOk_def
    initialState_def count_cyclicPair
  by (simp add: parentIndexOk_def childLinksOk_def primitiveRefsOk_def
        cyclicPair_def cyclicPairChildren_def mkNode_def U32_MAX_def nodeCountOf_def Let_def
        small_word_facts upt_0_2)

lemma all_ident_mark:
  assumes "wf_state nds st" "all_ident ident nds st" "unat idx < nodeTotal nds"
    and "\<forall>n \<in> set nds. n_localMatrix n = ident" "mul ident ident = ident"
  shows "all_ident ident nds (mark mul nds idx ident st)"
proof -
  have "unat idx < length nds" using assms(3) nodeTotal_le_length [of nds] by simp
  then have "n_localMatrix (nds ! unat idx) = ident" using assms(4) by simp
  with assms(1,2,5) show ?thesis by (simp add: all_ident_def globals_mark)
qed

lemma dfs_all_ident:
  "dfs d mul nds nc idx parent st = Some st' \<Longrightarrow> wf_state nds st \<Longrightarrow>
     \<forall>n \<in> set nds. n_localMatrix n = ident \<Longrightarrow> mul ident ident = ident \<Longrightarrow>
     parent = ident \<Longrightarrow> all_ident ident nds st \<Longrightarrow> all_ident ident nds st'"
  "dfs_children d mul nds nc idx ks st = Some st' \<Longrightarrow> wf_state nds st \<Longrightarrow>
     \<forall>n \<in> set nds. n_localMatrix n = ident \<Longrightarrow> mul ident ident = ident \<Longrightarrow>
     unat idx < nodeTotal nds \<Longrightarrow> all_ident ident nds st \<Longrightarrow> all_ident ident nds st'"
proof (induction d mul nds nc idx parent st and d mul nds nc idx ks st arbitrary: st' and st'
       rule: dfs_dfs_children.induct)
  case (1 mul nds nc idx parent st)
  then show ?case by (simp add: dfs_zero)
next
  case (2 depth mul nds nc idx parent st)
  note run = \<open>dfs (Suc depth) mul nds nc idx parent st = Some st'\<close>
  note wf = \<open>wf_state nds st\<close> and loc = \<open>\<forall>n \<in> set nds. n_localMatrix n = ident\<close>
    and one = \<open>mul ident ident = ident\<close> and par = \<open>parent = ident\<close>
    and ai = \<open>all_ident ident nds st\<close>
  consider (skip) "idx \<ge> nodeCountOf nds \<or> visited st ! unat idx"
    | (leaf) "unat idx < nodeTotal nds" "\<not> visited st ! unat idx" "\<not> descends nds nc (unat idx)"
    | (node) "unat idx < nodeTotal nds" "\<not> visited st ! unat idx" "descends nds nc (unat idx)"
    using idx_lt_iff [where idx = idx and nds = nds] by blast
  then show ?case
  proof cases
    case skip
    with run ai show ?thesis by (simp add: dfs_skip)
  next
    case leaf
    with run have "st' = mark mul nds idx ident st" by (simp add: dfs_leaf par)
    with all_ident_mark [where mul = mul, OF wf ai leaf(1) loc one] show ?thesis by simp
  next
    case node
    with run have c: "dfs_children depth mul nds nc idx [0 ..< unat (n_childCount (nds ! unat idx))]
                        (mark mul nds idx parent st) = Some st'"
      by (simp add: dfs_node)
    have nl: "\<not> nodeCountOf nds \<le> idx" using node(1) by (simp add: idx_lt_iff)
    have d1: "\<not> (n_childCount (nds ! unat idx) = 0 \<or> n_firstChildIndex (nds ! unat idx) = U32_MAX)"
      and d2: "\<not> length nc < unat (n_firstChildIndex (nds ! unat idx)) + unat (n_childCount (nds ! unat idx))"
      using node(3) by (auto simp: descends_def)
    note IH = "2.IH" [OF nl node(2) refl refl d1 d2, folded mark_def]
    have a1: "all_ident ident nds (mark mul nds idx parent st)"
      unfolding par using wf ai node(1) loc one by (rule all_ident_mark [where mul = mul])
    from IH [OF c wf_state_mark [OF wf] loc one node(1) a1] show ?thesis .
  qed
next
  case (3 depth mul nds nc idx st)
  then show ?case by simp
next
  case (4 depth mul nds nc idx k ks st)
  note wf = \<open>wf_state nds st\<close> and loc = \<open>\<forall>n \<in> set nds. n_localMatrix n = ident\<close>
    and one = \<open>mul ident ident = ident\<close> and lt = \<open>unat idx < nodeTotal nds\<close>
    and ai = \<open>all_ident ident nds st\<close>
  from \<open>dfs_children depth mul nds nc idx (k # ks) st = Some st'\<close> obtain st1 where
    s1: "dfs depth mul nds nc (nc ! unat (n_firstChildIndex (nds ! unat idx) + of_nat k))
            (expectedGlobals st ! unat idx) st = Some st1"
    and s2: "dfs_children depth mul nds nc idx ks st1 = Some st'"
    unfolding dfs_children_Cons by blast
  from ai lt have p: "expectedGlobals st ! unat idx = ident" by (simp add: all_ident_def)
  from "4.IH"(1) [OF s1 wf loc one p ai] have a1: "all_ident ident nds st1" .
  from dfs_keeps(1) [OF s1 wf] have wf1: "wf_state nds st1" by simp
  from "4.IH"(2) [OF s1 s2 wf1 loc one lt a1] show ?case .
qed

lemma dfs_roots_all_ident:
  "dfs_roots d mul ident nds nc is st = Some st' \<Longrightarrow> wf_state nds st \<Longrightarrow>
     \<forall>n \<in> set nds. n_localMatrix n = ident \<Longrightarrow> mul ident ident = ident \<Longrightarrow>
     all_ident ident nds st \<Longrightarrow> all_ident ident nds st'"
proof (induction "is" arbitrary: st)
  case Nil
  then show ?case by simp
next
  case (Cons i "is")
  show ?case
  proof (cases "n_parentIndex (nds ! i) = U32_MAX")
    case True
    with Cons.prems(1) obtain st1 where
      s1: "dfs d mul nds nc (of_nat i) ident st = Some st1"
      and s2: "dfs_roots d mul ident nds nc is st1 = Some st'"
      by (auto split: option.splits)
    from dfs_all_ident(1) [OF s1 Cons.prems(2,3,4) refl Cons.prems(5)]
    have a1: "all_ident ident nds st1" .
    from dfs_keeps(1) [OF s1 Cons.prems(2)] have "wf_state nds st1" by simp
    from Cons.IH [OF s2 this Cons.prems(3,4) a1] show ?thesis .
  next
    case False
    with Cons.prems(1) have "dfs_roots d mul ident nds nc is st = Some st'" by simp
    from Cons.IH [OF this Cons.prems(2-5)] show ?thesis .
  qed
qed

lemma dfs_roots_invariants_wf:
  "dfs_roots d mul ident nds nc is st = Some st' \<Longrightarrow> wf_state nds st \<Longrightarrow> wf_state nds st'"
proof (induction "is" arbitrary: st)
  case Nil
  then show ?case by simp
next
  case (Cons i "is")
  show ?case
  proof (cases "n_parentIndex (nds ! i) = U32_MAX")
    case True
    with Cons.prems(1) obtain st1 where
      s1: "dfs d mul nds nc (of_nat i) ident st = Some st1"
      and s2: "dfs_roots d mul ident nds nc is st1 = Some st'"
      by (auto split: option.splits)
    from dfs_keeps(1) [OF s1 Cons.prems(2)] have "wf_state nds st1" by simp
    from Cons.IH [OF s2 this] show ?thesis .
  next
    case False
    with Cons.prems(1) have "dfs_roots d mul ident nds nc is st = Some st'" by simp
    from Cons.IH [OF this Cons.prems(2)] show ?thesis .
  qed
qed

lemma computeExpectedGlobals_all_ident:
  assumes "computeExpectedGlobals mul ident nds nc = Some st"
    and "\<forall>n \<in> set nds. n_localMatrix n = ident" "mul ident ident = ident"
  shows "\<forall>i < length (expectedGlobals st). expectedGlobals st ! i = ident"
proof -
  have a0: "all_ident ident nds (initialState ident nds)"
    by (simp add: all_ident_def initialState_def nodeTotal_def)
  from assms(1) have r: "dfs_roots (Suc (nodeTotal nds)) mul ident nds nc [0 ..< nodeTotal nds] (initialState ident nds) = Some st"
    by (simp add: computeExpectedGlobals_def nodeTotal_def)
  from dfs_roots_all_ident [OF r wf_initialState assms(2,3) a0]
  have "all_ident ident nds st" .
  moreover have "wf_state nds st"
    using r wf_initialState by (rule dfs_roots_invariants_wf)
  ultimately show ?thesis by (simp add: all_ident_def wf_state_def)
qed

lemma cyclicPair_initial:
  "initialState ident (cyclicPair l0 l1) = \<lparr>visited = [False, False], expectedGlobals = [ident, ident]\<rparr>"
  unfolding initialState_def count_cyclicPair by simp

lemma kids_exampleTree:
  "kids (exampleTree lR l1 l2 l3) exampleTreeChildren 0 = [1, 2]"
  "kids (exampleTree lR l1 l2 l3) exampleTreeChildren (Suc 0) = [3]"
  by (simp_all add: kids_def exampleTree_def exampleTreeChildren_def mkNode_def U32_MAX_def
        Let_def upt_0_2)

lemma reachable_exampleTree: "reachable (exampleTree lR l1 l2 l3) exampleTreeChildren 3"
proof -
  let ?t = "exampleTree lR l1 l2 l3"
  have r0: "reachable ?t exampleTreeChildren 0"
    by (rule reachable.root) (simp_all add: count_exampleTree, simp add: exampleTree_def mkNode_def)
  have "reachable ?t exampleTreeChildren (unat (1::u32))"
    using r0 by (rule reachable.child) (simp_all add: kids_exampleTree count_exampleTree)
  then have r1: "reachable ?t exampleTreeChildren 1" by simp
  have "reachable ?t exampleTreeChildren (unat (3::u32))"
    using r1 by (rule reachable.child) (simp_all add: kids_exampleTree count_exampleTree)
  then show ?thesis by simp
qed

lemma boundsChecksOk_exampleTree:
  "boundsChecksOk (exampleTree lR l1 l2 l3) [] exampleTreeChildren 0"
  unfolding boundsChecksOk_def count_exampleTree
  by (simp add: parentIndexOk_def childLinksOk_def primitiveRefsOk_def
        exampleTree_def exampleTreeChildren_def mkNode_def U32_MAX_def nodeCountOf_def Let_def
        small_word_facts upt_0_2)

lemma mat2_left_ident: "mat2_mul mat2_ident x = x"
  by (simp add: mat2_mul_def mat2_ident_def split: prod.splits)

subsection \<open>The claims about the traversal\<close>

text \<open>
  Claim C6. The matrix product and the identity matrix are parameters \<open>mul\<close> and \<open>ident\<close>.
  For every node table that passes the bounds checks of the first loop, the traversal returns,
  and every node reachable from a root is visited and carries as expected global the product
  of its parent's expected global and its own local matrix; at a root (parent index equal to
  the sentinel) the identity stands for the parent's global. In the tree with root R, child
  C1 of R and child C3 of C1, with the identity neutral on the left, the global of C3 is
  local(R) * local(C1) * local(C3). When every local matrix is the identity, every expected
  global is the identity.
\<close>

theorem resolved_globals_are_products:
  "(boundsChecksOk nds np nc primCount \<longrightarrow>
      (\<exists>st. computeExpectedGlobals mul ident nds nc = Some st
         \<and> (\<forall>i. reachable nds nc i \<longrightarrow>
               visited st ! i
             \<and> (if n_parentIndex (nds ! i) = U32_MAX
                then expectedGlobals st ! i = mul ident (n_localMatrix (nds ! i))
                else visited st ! unat (n_parentIndex (nds ! i))
                     \<and> expectedGlobals st ! i
                        = mul (expectedGlobals st ! unat (n_parentIndex (nds ! i)))
                              (n_localMatrix (nds ! i))))))
   \<and> ((\<forall>x. mul ident x = x) \<longrightarrow>
        (\<exists>st. computeExpectedGlobals mul ident (exampleTree lR l1 l2 l3) exampleTreeChildren = Some st
            \<and> expectedGlobals st ! 3 = mul (mul lR l1) l3))
   \<and> (mul ident ident = ident \<and> (\<forall>n \<in> set nds. n_localMatrix n = ident) \<longrightarrow>
        (\<exists>st. computeExpectedGlobals mul ident nds nc = Some st
            \<and> (\<forall>i < length (expectedGlobals st). expectedGlobals st ! i = ident)))"
proof (intro conjI impI)
  assume ok: "boundsChecksOk nds np nc primCount"
  then have links: "links_ok nds nc" by (rule boundsChecksOk_links)
  obtain st where run: "computeExpectedGlobals mul ident nds nc = Some st"
    using computeExpectedGlobals_returns [of mul ident nds nc] by blast
  have "visited st ! i
        \<and> (if n_parentIndex (nds ! i) = U32_MAX
            then expectedGlobals st ! i = mul ident (n_localMatrix (nds ! i))
            else visited st ! unat (n_parentIndex (nds ! i))
                 \<and> expectedGlobals st ! i
                    = mul (expectedGlobals st ! unat (n_parentIndex (nds ! i)))
                          (n_localMatrix (nds ! i)))"
    if r: "reachable nds nc i" for i
  proof -
    from computeExpectedGlobals_sound(3) [OF run links r] have v: "visited st ! i" .
    from r have "i < nodeTotal nds" by (rule reachable_lt)
    with computeExpectedGlobals_sound(2) [OF run links] v
    have "global_ok mul ident nds st i" by (simp add: inv_globals_def)
    with v show ?thesis by (simp add: global_ok_def)
  qed
  with run show "\<exists>st. computeExpectedGlobals mul ident nds nc = Some st
         \<and> (\<forall>i. reachable nds nc i \<longrightarrow>
               visited st ! i
             \<and> (if n_parentIndex (nds ! i) = U32_MAX
                then expectedGlobals st ! i = mul ident (n_localMatrix (nds ! i))
                else visited st ! unat (n_parentIndex (nds ! i))
                     \<and> expectedGlobals st ! i
                        = mul (expectedGlobals st ! unat (n_parentIndex (nds ! i)))
                              (n_localMatrix (nds ! i))))"
    by blast
next
  assume "\<forall>x. mul ident x = x"
  then show "\<exists>st. computeExpectedGlobals mul ident (exampleTree lR l1 l2 l3) exampleTreeChildren = Some st
            \<and> expectedGlobals st ! 3 = mul (mul lR l1) l3"
    by (simp add: exampleTree_run)
next
  assume a: "mul ident ident = ident \<and> (\<forall>n \<in> set nds. n_localMatrix n = ident)"
  obtain st where run: "computeExpectedGlobals mul ident nds nc = Some st"
    using computeExpectedGlobals_returns [of mul ident nds nc] by blast
  from computeExpectedGlobals_all_ident [OF run] a
  have "\<forall>i < length (expectedGlobals st). expectedGlobals st ! i = ident" by blast
  with run show "\<exists>st. computeExpectedGlobals mul ident nds nc = Some st
            \<and> (\<forall>i < length (expectedGlobals st). expectedGlobals st ! i = ident)"
    by blast
qed

text \<open>The witness, over integer 2x2 matrices: the four-node tree passes the bounds checks,
  node 3 is reachable and visited, its global is the product of the three locals on its
  path, and with identity locals each of the four globals is the identity.\<close>

theorem resolved_globals_are_products_witness:
  "boundsChecksOk (exampleTree (1, 2, 0, 1) (0, 1, 1, 0) (1, 0, 0, 1) ((2, 0, 0, 3) :: mat2)) []
      exampleTreeChildren 0
   \<and> reachable (exampleTree (1, 2, 0, 1) (0, 1, 1, 0) (1, 0, 0, 1) ((2, 0, 0, 3) :: mat2))
        exampleTreeChildren 3
   \<and> (\<forall>x. mat2_mul mat2_ident x = x)
   \<and> expectedGlobals (the (computeExpectedGlobals mat2_mul mat2_ident
        (exampleTree (1, 2, 0, 1) (0, 1, 1, 0) (1, 0, 0, 1) (2, 0, 0, 3)) exampleTreeChildren)) ! 3
      = (4, 3, 2, 0)
   \<and> visited (the (computeExpectedGlobals mat2_mul mat2_ident
        (exampleTree (1, 2, 0, 1) (0, 1, 1, 0) (1, 0, 0, 1) (2, 0, 0, 3)) exampleTreeChildren)) ! 3
   \<and> expectedGlobals (the (computeExpectedGlobals mat2_mul mat2_ident
        (exampleTree mat2_ident mat2_ident mat2_ident mat2_ident) exampleTreeChildren)) ! 0
      = mat2_ident
   \<and> expectedGlobals (the (computeExpectedGlobals mat2_mul mat2_ident
        (exampleTree mat2_ident mat2_ident mat2_ident mat2_ident) exampleTreeChildren)) ! 1
      = mat2_ident
   \<and> expectedGlobals (the (computeExpectedGlobals mat2_mul mat2_ident
        (exampleTree mat2_ident mat2_ident mat2_ident mat2_ident) exampleTreeChildren)) ! 2
      = mat2_ident
   \<and> expectedGlobals (the (computeExpectedGlobals mat2_mul mat2_ident
        (exampleTree mat2_ident mat2_ident mat2_ident mat2_ident) exampleTreeChildren)) ! 3
      = mat2_ident"
proof -
  let ?t = "exampleTree (1, 2, 0, 1) (0, 1, 1, 0) (1, 0, 0, 1) ((2, 0, 0, 3) :: mat2)"
  let ?j = "exampleTree mat2_ident mat2_ident mat2_ident mat2_ident"
  have b: "boundsChecksOk ?t [] exampleTreeChildren 0" by (rule boundsChecksOk_exampleTree)
  have r: "reachable ?t exampleTreeChildren 3" by (rule reachable_exampleTree)
  have l: "\<forall>x. mat2_mul mat2_ident x = x" by (simp add: mat2_left_ident)
  have j: "mat2_mul mat2_ident mat2_ident = mat2_ident \<and> (\<forall>n \<in> set ?j. n_localMatrix n = mat2_ident)"
    by (simp add: mat2_left_ident exampleTree_def mkNode_def)
  note t1 = resolved_globals_are_products [of ?t "[]" exampleTreeChildren 0 mat2_mul mat2_ident
      "(1, 2, 0, 1)" "(0, 1, 1, 0)" "(1, 0, 0, 1)" "(2, 0, 0, 3)"]
  note t2 = resolved_globals_are_products [of ?j "[]" exampleTreeChildren 0 mat2_mul mat2_ident
      "(1, 2, 0, 1)" "(0, 1, 1, 0)" "(1, 0, 0, 1)" "(2, 0, 0, 3)"]
  from t1 b r obtain st where
    s: "computeExpectedGlobals mat2_mul mat2_ident ?t exampleTreeChildren = Some st" "visited st ! 3"
    by blast
  from t1 l obtain st' where
    s': "computeExpectedGlobals mat2_mul mat2_ident ?t exampleTreeChildren = Some st'"
        "expectedGlobals st' ! 3 = mat2_mul (mat2_mul (1, 2, 0, 1) (0, 1, 1, 0)) (2, 0, 0, 3)"
    by blast
  from s' have g: "expectedGlobals (the (computeExpectedGlobals mat2_mul mat2_ident ?t exampleTreeChildren)) ! 3
      = (4, 3, 2, 0)"
    by (simp add: mat2_mul_def)
  from s have v: "visited (the (computeExpectedGlobals mat2_mul mat2_ident ?t exampleTreeChildren)) ! 3"
    by simp
  from t2 j obtain sj where
    sj: "computeExpectedGlobals mat2_mul mat2_ident ?j exampleTreeChildren = Some sj"
        "\<forall>i < length (expectedGlobals sj). expectedGlobals sj ! i = mat2_ident"
    by blast
  from sj(1) have "length (expectedGlobals sj) = 4" by (auto simp: exampleTree_run)
  with sj have i: "\<forall>i < 4. expectedGlobals (the (computeExpectedGlobals mat2_mul mat2_ident ?j
        exampleTreeChildren)) ! i = mat2_ident"
    by simp
  have i0: "expectedGlobals (the (computeExpectedGlobals mat2_mul mat2_ident ?j
        exampleTreeChildren)) ! 0 = mat2_ident"
    using i by simp
  have i1: "expectedGlobals (the (computeExpectedGlobals mat2_mul mat2_ident ?j
        exampleTreeChildren)) ! 1 = mat2_ident"
    using i by simp
  have i2: "expectedGlobals (the (computeExpectedGlobals mat2_mul mat2_ident ?j
        exampleTreeChildren)) ! 2 = mat2_ident"
    using i by simp
  have i3: "expectedGlobals (the (computeExpectedGlobals mat2_mul mat2_ident ?j
        exampleTreeChildren)) ! 3 = mat2_ident"
    using i by simp
  from b r l g v i0 i1 i2 i3 show ?thesis by blast
qed

text \<open>
  Claim C7, the part that holds. The traversal returns for every node table and every
  child-index table, whether the child links form a cycle or leave nodes unreachable: the
  depth bound of one more than the number of nodes is never reached, from any state with one
  entry per node and at any start index, because each level of the recursion marks a node
  that was not marked before. The verdict is therefore always defined. On the table whose
  two nodes are each other's child and parent, the loop over roots starts no traversal and
  leaves both nodes unvisited.
\<close>

theorem traversal_terminates:
  "(\<exists>st. computeExpectedGlobals mul ident nds nc = Some st)
   \<and> verifyNodeGraph mul ident near nds np nc primCount \<noteq> None
   \<and> (length (visited st0) = unat (nodeCountOf nds)
        \<and> length (expectedGlobals st0) = unat (nodeCountOf nds)
      \<longrightarrow> (\<exists>st'. dfs (Suc (unat (nodeCountOf nds))) mul nds nc idx parent st0 = Some st'))
   \<and> computeExpectedGlobals mul ident (cyclicPair l0 l1) cyclicPairChildren
       = Some \<lparr>visited = [False, False], expectedGlobals = [ident, ident]\<rparr>"
proof (intro conjI impI)
  show "\<exists>st. computeExpectedGlobals mul ident nds nc = Some st"
    by (rule computeExpectedGlobals_returns)
  then show "verifyNodeGraph mul ident near nds np nc primCount \<noteq> None"
    by (auto simp: verifyNodeGraph_def)
next
  assume "length (visited st0) = unat (nodeCountOf nds)
        \<and> length (expectedGlobals st0) = unat (nodeCountOf nds)"
  then have wf: "wf_state nds st0" by (simp add: wf_state_def nodeTotal_def)
  have "unvisited nds st0 < Suc (nodeTotal nds)" using unvisited_le [of nds st0] by simp
  from dfs_returns(1) [OF wf this]
  show "\<exists>st'. dfs (Suc (unat (nodeCountOf nds))) mul nds nc idx parent st0 = Some st'"
    by (simp add: nodeTotal_def)
next
  show "computeExpectedGlobals mul ident (cyclicPair l0 l1) cyclicPairChildren
       = Some \<lparr>visited = [False, False], expectedGlobals = [ident, ident]\<rparr>"
    by (simp add: cyclicPair_run cyclicPair_initial)
qed

text \<open>The witness: started at node 0 of the cyclic pair, the lambda visits node 0, then
  node 1, finds node 0 visited and returns.\<close>

theorem traversal_terminates_witness:
  "length (visited (initialState mat2_ident (cyclicPair (1, 2, 0, 1) ((0, 1, 1, 0) :: mat2))))
     = unat (nodeCountOf (cyclicPair (1, 2, 0, 1) ((0, 1, 1, 0) :: mat2)))
   \<and> dfs (Suc (unat (nodeCountOf (cyclicPair (1, 2, 0, 1) ((0, 1, 1, 0) :: mat2))))) mat2_mul
        (cyclicPair (1, 2, 0, 1) (0, 1, 1, 0)) cyclicPairChildren 0 mat2_ident
        (initialState mat2_ident (cyclicPair (1, 2, 0, 1) (0, 1, 1, 0))) \<noteq> None
   \<and> dfs (Suc (unat (nodeCountOf (cyclicPair (1, 2, 0, 1) ((0, 1, 1, 0) :: mat2))))) mat2_mul
        (cyclicPair (1, 2, 0, 1) (0, 1, 1, 0)) cyclicPairChildren 0 mat2_ident
        (initialState mat2_ident (cyclicPair (1, 2, 0, 1) (0, 1, 1, 0)))
      = Some \<lparr>visited = [True, True], expectedGlobals = [(1, 2, 0, 1), (2, 1, 1, 0)]\<rparr>"
proof -
  let ?c = "cyclicPair (1, 2, 0, 1) ((0, 1, 1, 0) :: mat2)"
  let ?s = "initialState mat2_ident ?c"
  have len: "length (visited ?s) = unat (nodeCountOf ?c) \<and> length (expectedGlobals ?s) = unat (nodeCountOf ?c)"
    by (simp add: initialState_def)
  from traversal_terminates [of mat2_mul mat2_ident ?c cyclicPairChildren "(=)" "[]" 0 ?s 0 mat2_ident] len
  have nn: "dfs (Suc (unat (nodeCountOf ?c))) mat2_mul ?c cyclicPairChildren 0 mat2_ident ?s \<noteq> None"
    by auto
  have "dfs (Suc (unat (nodeCountOf ?c))) mat2_mul ?c cyclicPairChildren 0 mat2_ident ?s
      = Some \<lparr>visited = [True, True], expectedGlobals = [(1, 2, 0, 1), (2, 1, 1, 0)]\<rparr>"
    unfolding count_cyclicPair by (simp add: cyclicPair_dfs mat2_mul_def mat2_ident_def)
  with len nn show ?thesis by blast
qed

text \<open>
  Claim C7, the part that fails. The cyclic pair is not flagged: it passes the bounds checks
  of the first loop (each child names its parent), no node is a root, so both stay
  unvisited, and the last loop skips unvisited nodes without reporting them. The block ends
  with \<^verbatim>\<open>nodeOk\<close> true.
\<close>

theorem cyclic_table_not_flagged_counterexample:
  "verifyNodeGraph mat2_mul mat2_ident (=) (cyclicPair (1, 2, 0, 1) (0, 1, 1, 0)) []
      cyclicPairChildren 0 = Some True
   \<and> computeExpectedGlobals mat2_mul mat2_ident (cyclicPair (1, 2, 0, 1) (0, 1, 1, 0))
        cyclicPairChildren
      = Some \<lparr>visited = [False, False], expectedGlobals = [mat2_ident, mat2_ident]\<rparr>"
  by (simp add: cyclicPair_verdict cyclicPair_run cyclicPair_initial)

end
